theory Spec2Isabelle
  imports Complex_Main
begin

section \<open>Python values used by the guide ingestion code\<close>

text \<open>
  Strings are lists of characters (one \<open>char\<close> per code point, code points below 256).
  Exceptions are values: every function that can raise returns \<open>exn + 'a\<close>, with
  \<open>Inl\<close> the exception.
\<close>

datatype exn =
    Exception string
  | IndexError
  | ZeroDivisionError

text \<open>\<open>str(e)\<close> for the exceptions above.\<close>

fun str_exn :: "exn \<Rightarrow> string" where
  "str_exn (Exception msg) = msg"
| "str_exn IndexError = ''list index out of range''"
| "str_exn ZeroDivisionError = ''division by zero''"

text \<open>\<open>str(n)\<close> for an integer: its decimal digits, with a minus sign when negative.\<close>

definition digit_char :: "nat \<Rightarrow> char" where
  "digit_char d = char_of (48 + d)"

fun str_nat :: "nat \<Rightarrow> string" where
  "str_nat n = (if n < 10 then [digit_char n] else str_nat (n div 10) @ [digit_char (n mod 10)])"

declare str_nat.simps [simp del]

definition str_int :: "int \<Rightarrow> string" where
  "str_int i = (if i < 0 then CHR ''-'' # str_nat (nat (- i)) else str_nat (nat i))"

text \<open>Reading a decimal numeral back; used to show that \<open>str_nat\<close> is injective.\<close>

definition digit_val :: "char \<Rightarrow> nat" where
  "digit_val c = of_char c - 48"

definition nat_of_digits :: "string \<Rightarrow> nat" where
  "nat_of_digits s = foldl (\<lambda>a c. 10 * a + digit_val c) 0 s"

text \<open>\<open>str.strip()\<close>: drop the white space at both ends.\<close>

definition is_space :: "char \<Rightarrow> bool" where
  "is_space c =
     (let n = (of_char c :: nat)
      in (9 \<le> n \<and> n \<le> 13) \<or> (28 \<le> n \<and> n \<le> 32) \<or> n = 133 \<or> n = 160)"

definition strip :: "string \<Rightarrow> string" where
  "strip s = rev (dropWhile is_space (rev (dropWhile is_space s)))"

text \<open>\<open>d.get(key, "")\<close> on a field holding a string, and on one holding an integer
  that an f-string then formats.\<close>

definition get_str :: "string option \<Rightarrow> string" where
  "get_str v = (case v of None \<Rightarrow> [] | Some s \<Rightarrow> s)"

definition fmt_int :: "int option \<Rightarrow> string" where
  "fmt_int v = (case v of None \<Rightarrow> [] | Some i \<Rightarrow> str_int i)"

definition get_list :: "'a list option \<Rightarrow> 'a list" where
  "get_list v = (case v of None \<Rightarrow> [] | Some xs \<Rightarrow> xs)"


section \<open>The guide document (data\_loader.py)\<close>

text \<open>
  The decoded JSON of a guide, each key at the type the content source gives it; a key
  that is absent is \<open>None\<close>. A media block and a media entry may be something else than
  a dictionary, which the code tests with \<open>isinstance\<close>.
\<close>

record guide_line =
  text_rendered :: "string option"

datatype media_item =
    ItemDict "string \<rightharpoonup> string"
  | ItemOther

record media =
  m_type :: "string option"
  m_data :: "media_item list option"

datatype media_val =
    MediaDict media
  | MediaOther

record guide_step =
  orderby :: "int option"
  s_title :: "string option"
  lines :: "guide_line list option"
  s_media :: "media_val option"

record guide_part =
  p_text :: "string option"

record guide_doc =
  title :: "string option"
  summary :: "string option"
  difficulty :: "string option"
  category :: "string option"
  introduction_rendered :: "string option"
  conclusion_rendered :: "string option"
  steps :: "guide_step list option"
  parts :: "guide_part list option"
  tools :: "guide_part list option"
  url :: "string option"

subsection \<open>extract\_guide\_text\<close>

definition header_text :: "guide_doc \<Rightarrow> string" where
  "header_text guide_data =
     ''Guide: '' @ get_str (title guide_data) @
     ''\<newline>Category: '' @ get_str (category guide_data) @
     ''\<newline>Difficulty: '' @ get_str (difficulty guide_data) @
     ''\<newline>Summary: '' @ get_str (summary guide_data)"

text \<open>The inner loop over a step's lines appends one bullet per non-empty line.\<close>

fun step_lines_text :: "guide_line list \<Rightarrow> string \<Rightarrow> string" where
  "step_lines_text [] step_text = step_text"
| "step_lines_text (line # rest) step_text =
     (let line_text = get_str (text_rendered line)
      in if line_text \<noteq> [] then step_lines_text rest (step_text @ ''- '' @ line_text @ ''\<newline>'')
         else step_lines_text rest step_text)"

definition step_text_of :: "guide_step \<Rightarrow> string" where
  "step_text_of step =
     step_lines_text (get_list (lines step))
       (''Step '' @ fmt_int (orderby step) @ '': '' @ get_str (s_title step) @ ''\<newline>'')"

fun steps_text :: "guide_step list \<Rightarrow> string list \<Rightarrow> string list" where
  "steps_text [] text_chunks = text_chunks"
| "steps_text (step # rest) text_chunks =
     (let step_text = step_text_of step
      in if strip step_text \<noteq> [] then steps_text rest (text_chunks @ [step_text])
         else steps_text rest text_chunks)"

fun parts_lines :: "guide_part list \<Rightarrow> string \<Rightarrow> string" where
  "parts_lines [] parts_text = parts_text"
| "parts_lines (part # rest) parts_text =
     parts_lines rest (parts_text @ ''- '' @ get_str (p_text part) @ ''\<newline>'')"

definition extract_guide_text :: "guide_doc \<Rightarrow> string list" where
  "extract_guide_text guide_data =
     (let text_chunks = [header_text guide_data];
          intro = strip (get_str (introduction_rendered guide_data));
          text_chunks = (if intro \<noteq> [] then text_chunks @ [''Introduction:\<newline>'' @ intro]
                         else text_chunks);
          text_chunks = steps_text (get_list (steps guide_data)) text_chunks;
          conclusion = strip (get_str (conclusion_rendered guide_data));
          text_chunks = (if conclusion \<noteq> [] then text_chunks @ [''Conclusion:\<newline>'' @ conclusion]
                         else text_chunks);
          text_chunks = (if get_list (parts guide_data) \<noteq> []
                         then text_chunks @ [parts_lines (get_list (parts guide_data)) ''Required Parts:\<newline>'']
                         else text_chunks);
          text_chunks = (if get_list (tools guide_data) \<noteq> []
                         then text_chunks @ [parts_lines (get_list (tools guide_data)) ''Required Tools:\<newline>'']
                         else text_chunks)
      in text_chunks)"

subsection \<open>extract\_guide\_images\<close>

text \<open>
  For one entry of a media block's data list: only the \<open>original\<close> key is read, and
  its URL is kept when it is non-empty.
\<close>

fun item_images :: "media_item list \<Rightarrow> string list \<Rightarrow> string list" where
  "item_images [] step_images = step_images"
| "item_images (ItemDict item # rest) step_images =
     (case item ''original'' of
        None \<Rightarrow> item_images rest step_images
      | Some u \<Rightarrow> if u \<noteq> [] then item_images rest (step_images @ [u])
                  else item_images rest step_images)"
| "item_images (ItemOther # rest) step_images = item_images rest step_images"

definition step_images_of :: "guide_step \<Rightarrow> string list" where
  "step_images_of step =
     (case s_media step of
        None \<Rightarrow> []
      | Some MediaOther \<Rightarrow> []
      | Some (MediaDict media) \<Rightarrow>
          if m_type media = Some ''image'' then item_images (get_list (m_data media)) []
          else [])"

fun steps_images :: "guide_step list \<Rightarrow> string list list \<Rightarrow> string list list" where
  "steps_images [] sections_images = sections_images"
| "steps_images (step # rest) sections_images =
     steps_images rest (sections_images @ [step_images_of step])"

definition extract_guide_images :: "guide_doc \<Rightarrow> string list list" where
  "extract_guide_images guide_data =
     (let sections_images = [[]];
          intro = strip (get_str (introduction_rendered guide_data));
          sections_images = (if intro \<noteq> [] then sections_images @ [[]] else sections_images);
          sections_images = steps_images (get_list (steps guide_data)) sections_images;
          conclusion = strip (get_str (conclusion_rendered guide_data));
          sections_images = (if conclusion \<noteq> [] then sections_images @ [[]] else sections_images);
          sections_images = (if get_list (parts guide_data) \<noteq> [] then sections_images @ [[]]
                             else sections_images);
          sections_images = (if get_list (tools guide_data) \<noteq> [] then sections_images @ [[]]
                             else sections_images)
      in sections_images)"

subsection \<open>load\_and\_chunk\_guide and load\_and\_chunk\_guide\_with\_media\<close>

text \<open>
  The sentence splitter (\<open>splitter.split_text\<close>) and the HTTP fetch (\<open>fetch_guide\<close>)
  belong to libraries and services outside the repository; they are parameters.
\<close>

type_synonym splitter = "string \<Rightarrow> string list"
type_synonym fetcher = "int \<Rightarrow> string \<Rightarrow> exn + guide_doc"

fun chunk_sections :: "splitter \<Rightarrow> string list \<Rightarrow> string list \<Rightarrow> string list" where
  "chunk_sections split_text [] chunks = chunks"
| "chunk_sections split_text (section # rest) chunks =
     (if length section > 1000 then chunk_sections split_text rest (chunks @ split_text section)
      else chunk_sections split_text rest (chunks @ [section]))"

definition load_and_chunk_guide :: "fetcher \<Rightarrow> splitter \<Rightarrow> int \<Rightarrow> string \<Rightarrow> exn + string list" where
  "load_and_chunk_guide fetch_guide split_text guide_id token =
     (case fetch_guide guide_id token of
        Inl e \<Rightarrow> Inl e
      | Inr guide_data \<Rightarrow> Inr (chunk_sections split_text (extract_guide_text guide_data) []))"

record guide_meta =
  guide_title :: "string option"
  guide_url :: "string option"

definition meta_of :: "guide_doc \<Rightarrow> guide_meta" where
  "meta_of guide_data =
     \<lparr> guide_title = (if get_str (title guide_data) \<noteq> [] then title guide_data else None),
       guide_url = (if get_str (url guide_data) \<noteq> [] then url guide_data else None) \<rparr>"

text \<open>The inner loop over the parts of a split section: one chunk and one copy of the
  section's images per part.\<close>

fun append_parts ::
  "string list \<Rightarrow> string list \<Rightarrow> string list \<times> string list list \<Rightarrow> string list \<times> string list list" where
  "append_parts [] images acc = acc"
| "append_parts (part # rest) images (chunks, chunk_images) =
     append_parts rest images
       (chunks @ [part], chunk_images @ [if images \<noteq> [] then images else []])"

text \<open>The loop over \<open>enumerate(text_sections)\<close>.\<close>

fun chunk_loop ::
  "splitter \<Rightarrow> string list list \<Rightarrow> (nat \<times> string) list \<Rightarrow>
   string list \<times> string list list \<Rightarrow> string list \<times> string list list" where
  "chunk_loop split_text image_sections [] acc = acc"
| "chunk_loop split_text image_sections ((idx, section) # rest) (chunks, chunk_images) =
     (let images = (if idx < length image_sections then image_sections ! idx else [])
      in if length section > 1000
         then chunk_loop split_text image_sections rest
                (append_parts (split_text section) images (chunks, chunk_images))
         else chunk_loop split_text image_sections rest
                (chunks @ [section], chunk_images @ [if images \<noteq> [] then images else []]))"

definition chunk_guide_with_media ::
  "splitter \<Rightarrow> guide_doc \<Rightarrow> string list \<times> string list list \<times> guide_meta" where
  "chunk_guide_with_media split_text guide_data =
     (let text_sections = extract_guide_text guide_data;
          image_sections = extract_guide_images guide_data;
          meta = meta_of guide_data;
          max_len = min (length text_sections) (length image_sections);
          text_sections = take max_len text_sections;
          image_sections = take max_len image_sections;
          (chunks, chunk_images) = chunk_loop split_text image_sections (enumerate 0 text_sections) ([], [])
      in (chunks, chunk_images, meta))"

definition load_and_chunk_guide_with_media ::
  "fetcher \<Rightarrow> splitter \<Rightarrow> int \<Rightarrow> string \<Rightarrow> exn + (string list \<times> string list list \<times> guide_meta)" where
  "load_and_chunk_guide_with_media fetch_guide split_text guide_id token =
     (case fetch_guide guide_id token of
        Inl e \<Rightarrow> Inl e
      | Inr guide_data \<Rightarrow> Inr (chunk_guide_with_media split_text guide_data))"


subsection \<open>embed\_texts\<close>

text \<open>One call of the embedding provider per text, in order; the first failure is
  raised. The provider is a parameter.\<close>

fun embed_loop :: "(string \<Rightarrow> exn + 'v) \<Rightarrow> string list \<Rightarrow> 'v list \<Rightarrow> exn + 'v list" where
  "embed_loop embed_one [] embeddings = Inr embeddings"
| "embed_loop embed_one (text # rest) embeddings =
     (case embed_one text of
        Inl e \<Rightarrow> Inl e
      | Inr v \<Rightarrow> embed_loop embed_one rest (embeddings @ [v]))"

definition embed_texts :: "(string \<Rightarrow> exn + 'v) \<Rightarrow> string list \<Rightarrow> exn + 'v list" where
  "embed_texts embed_one texts = embed_loop embed_one texts []"


section \<open>The vector index (vector\_db.py)\<close>

datatype images_val =
    ImagesList "string list"
  | ImagesOther

record payload =
  pl_text :: "string option"
  pl_source :: "string option"
  pl_guide_id :: "int option"
  pl_images :: "images_val option"
  pl_guide_title :: "string option"
  pl_guide_url :: "string option"

text \<open>
  The collection held by the index service: at most one point per id. The service's
  own \<open>upsert\<close> stores each point under its id, replacing a point that has the same id;
  \<open>count\<close> is the number of ids.
\<close>

type_synonym 'v index = "string \<rightharpoonup> ('v \<times> payload)"

definition client_upsert :: "(string \<times> 'v \<times> payload) list \<Rightarrow> 'v index \<Rightarrow> 'v index" where
  "client_upsert points index = fold (\<lambda>(i, v, p) m. m(i \<mapsto> (v, p))) points index"

definition count :: "'v index \<Rightarrow> nat" where
  "count index = card (dom index)"

text \<open>QdrantStorage.upsert: the points are built by position, so a list of vectors or of
  payloads shorter than the list of ids raises.\<close>

definition make_points ::
  "string list \<Rightarrow> 'v list \<Rightarrow> payload list \<Rightarrow> exn + (string \<times> 'v \<times> payload) list" where
  "make_points ids vectors payloads =
     (if length vectors < length ids \<or> length payloads < length ids then Inl IndexError
      else Inr (map (\<lambda>i. (ids ! i, vectors ! i, payloads ! i)) [0..<length ids]))"

definition upsert :: "string list \<Rightarrow> 'v list \<Rightarrow> payload list \<Rightarrow> 'v index \<Rightarrow> exn + 'v index" where
  "upsert ids vectors payloads index =
     (case make_points ids vectors payloads of
        Inl e \<Rightarrow> Inl e
      | Inr points \<Rightarrow> Inr (client_upsert points index))"

subsection \<open>QdrantStorage.search\<close>

record scored_point =
  sp_payload :: "payload option"

record guide_info_entry =
  gi_guide_id :: "int option"
  gi_title :: "string option"
  gi_url :: "string option"
  gi_source :: string

text \<open>
  The result dictionary. While the loop runs, \<open>sources\<close> and \<open>guide_ids\<close> are Python
  sets: here lists that \<open>List.insert\<close> keeps free of duplicates, so that \<open>list(s)\<close> at
  the end is the list itself (Python leaves its order open).
\<close>

record search_result =
  contexts :: "string list"
  sources :: "string list"
  guide_ids :: "int list"
  images_per_context :: "string list list"
  guide_info :: "guide_info_entry list"

definition empty_payload :: payload where
  "empty_payload =
     \<lparr> pl_text = None, pl_source = None, pl_guide_id = None, pl_images = None,
       pl_guide_title = None, pl_guide_url = None \<rparr>"

definition images_of :: "payload \<Rightarrow> string list" where
  "images_of p =
     (case pl_images p of
        None \<Rightarrow> []
      | Some ImagesOther \<Rightarrow> []
      | Some (ImagesList us) \<Rightarrow> filter (\<lambda>u. u \<noteq> []) us)"

definition add_guide_id :: "int option \<Rightarrow> int list \<Rightarrow> int list" where
  "add_guide_id guide_id ids =
     (case guide_id of
        None \<Rightarrow> ids
      | Some g \<Rightarrow> if g \<noteq> 0 then List.insert g ids else ids)"

fun search_loop :: "scored_point list \<Rightarrow> search_result \<Rightarrow> search_result" where
  "search_loop [] acc = acc"
| "search_loop (r # rest) acc =
     (let p = (case sp_payload r of None \<Rightarrow> empty_payload | Some q \<Rightarrow> q);
          text = get_str (pl_text p);
          source = get_str (pl_source p);
          guide_id = pl_guide_id p
      in if text \<noteq> []
         then search_loop rest
                \<lparr> contexts = contexts acc @ [text],
                  sources = List.insert source (sources acc),
                  guide_ids = add_guide_id guide_id (guide_ids acc),
                  images_per_context = images_per_context acc @ [images_of p],
                  guide_info = guide_info acc @
                    [\<lparr> gi_guide_id = guide_id, gi_title = pl_guide_title p,
                       gi_url = pl_guide_url p, gi_source = source \<rparr>] \<rparr>
         else search_loop rest acc)"

text \<open>\<open>client_search\<close> is the index service's nearest-neighbour query, given the
  vector, the optional guide filter and the limit.\<close>

definition search ::
  "('q \<Rightarrow> int option \<Rightarrow> nat \<Rightarrow> scored_point list) \<Rightarrow> 'q \<Rightarrow> nat \<Rightarrow> int option \<Rightarrow> search_result" where
  "search client_search query_vector top_k guide_id =
     search_loop (client_search query_vector guide_id top_k)
       \<lparr> contexts = [], sources = [], guide_ids = [], images_per_context = [], guide_info = [] \<rparr>"


section \<open>Ingestion of one guide (main.py)\<close>

text \<open>
  The services a guide's ingestion calls. \<open>sv_uuid5 name\<close> is
  \<open>str(uuid.uuid5(uuid.NAMESPACE_URL, name))\<close>.
\<close>

record 'v services =
  sv_fetch_guide :: fetcher
  sv_split_text :: splitter
  sv_embed :: "string \<Rightarrow> exn + 'v"
  sv_uuid5 :: "string \<Rightarrow> string"

definition point_name :: "string \<Rightarrow> nat \<Rightarrow> string" where
  "point_name source_id i = source_id @ '':'' @ str_nat i"

definition point_ids :: "(string \<Rightarrow> string) \<Rightarrow> string \<Rightarrow> nat \<Rightarrow> string list" where
  "point_ids uuid5 source_id n = map (\<lambda>i. uuid5 (point_name source_id i)) [0..<n]"

definition point_payloads :: "string \<Rightarrow> string list \<Rightarrow> int \<Rightarrow> payload list" where
  "point_payloads source_id chunks guide_id =
     map (\<lambda>i. \<lparr> pl_text = Some (chunks ! i), pl_source = Some source_id,
                pl_guide_id = Some guide_id, pl_images = None,
                pl_guide_title = None, pl_guide_url = None \<rparr>) [0..<length chunks]"

text \<open>The body of the \<open>try\<close> block of process\_single\_guide, then the function with
  its handler, which wraps every exception.\<close>

definition process_single_guide_try ::
  "'v services \<Rightarrow> int \<Rightarrow> string \<Rightarrow> string \<Rightarrow> 'v index \<Rightarrow> (exn + nat) \<times> 'v index" where
  "process_single_guide_try sv guide_id token site_id index =
     (case load_and_chunk_guide (sv_fetch_guide sv) (sv_split_text sv) guide_id token of
        Inl e \<Rightarrow> (Inl e, index)
      | Inr chunks \<Rightarrow>
          if chunks = [] then (Inr 0, index)
          else (case embed_texts (sv_embed sv) chunks of
                  Inl e \<Rightarrow> (Inl e, index)
                | Inr vecs \<Rightarrow>
                    (let source_id = site_id @ ''_guide_'' @ str_int guide_id;
                         ids = point_ids (sv_uuid5 sv) source_id (length chunks);
                         payloads = point_payloads source_id chunks guide_id
                     in case upsert ids vecs payloads index of
                          Inl e \<Rightarrow> (Inl e, index)
                        | Inr index' \<Rightarrow> (Inr (length chunks), index'))))"

definition process_single_guide ::
  "'v services \<Rightarrow> int \<Rightarrow> string \<Rightarrow> string \<Rightarrow> 'v index \<Rightarrow> (exn + nat) \<times> 'v index" where
  "process_single_guide sv guide_id token site_id index =
     (case process_single_guide_try sv guide_id token site_id index of
        (Inl e, index') \<Rightarrow>
          (Inl (Exception (''Failed to process guide '' @ str_int guide_id @ '': '' @ str_exn e)), index')
      | (Inr n, index') \<Rightarrow> (Inr n, index'))"

subsection \<open>rag\_ingest\_guide: the steps \_load and \_upsert\<close>

record rag_chunk_and_src =
  rc_chunks :: "string list"
  rc_source_id :: string

definition rag_ingest_guide_load ::
  "'v services \<Rightarrow> int \<Rightarrow> string \<Rightarrow> string option \<Rightarrow> exn + rag_chunk_and_src" where
  "rag_ingest_guide_load sv guide_id token source_id_opt =
     (let source_id = (case source_id_opt of None \<Rightarrow> ''guide_'' @ str_int guide_id | Some s \<Rightarrow> s)
      in case load_and_chunk_guide (sv_fetch_guide sv) (sv_split_text sv) guide_id token of
           Inl e \<Rightarrow> Inl e
         | Inr chunks \<Rightarrow> Inr \<lparr> rc_chunks = chunks, rc_source_id = source_id \<rparr>)"

definition rag_ingest_guide_upsert ::
  "'v services \<Rightarrow> rag_chunk_and_src \<Rightarrow> int \<Rightarrow> 'v index \<Rightarrow> (exn + nat) \<times> 'v index" where
  "rag_ingest_guide_upsert sv chunks_and_src guide_id index =
     (let chunks = rc_chunks chunks_and_src;
          source_id = rc_source_id chunks_and_src
      in case embed_texts (sv_embed sv) chunks of
           Inl e \<Rightarrow> (Inl e, index)
         | Inr vecs \<Rightarrow>
             (let ids = point_ids (sv_uuid5 sv) source_id (length chunks);
                  payloads = point_payloads source_id chunks guide_id
              in case upsert ids vecs payloads index of
                   Inl e \<Rightarrow> (Inl e, index)
                 | Inr index' \<Rightarrow> (Inr (length chunks), index')))"


section \<open>Ingestion of a whole site (main.py, rag\_ingest\_site)\<close>

record guide_summary =
  guideid :: "int option"
  gs_title :: "string option"

text \<open>An entry of the saga's error list. \<open>ee_error\<close> is the exception caught; the
  source keeps its message \<open>str(e)\<close>.\<close>

record error_entry =
  ee_guide_id :: int
  ee_title :: string
  ee_error :: exn

text \<open>The data of the progress events, one constructor per \<open>send_event\<close> of the
  function, each starting with the site id.\<close>

datatype event =
    UpdateProgress string nat
  | PausedEvent string nat int nat
  | ProgressEvent string nat nat nat string rat
  | ErrorEvent string string nat nat
  | CompletedEvent string nat nat nat nat "error_entry list"

text \<open>
  What the function asks of the durable host, in order: running the ingestion step of a
  guide (at a loop index, for a guide id), waiting for a pause event before a loop index,
  sending a progress event.
\<close>

datatype host_call =
    StepRun int int
  | WaitForEvent int
  | SendEvent event

text \<open>
  The host's answers are parameters: \<open>pause_check i\<close> tells whether the wait of step
  \<open>pause-check-i\<close> returned a pause event, and \<open>run_step i guide_id\<close> is what the
  step \<open>process-guide-guide_id\<close> run at loop index \<open>i\<close> yields: the number of chunks,
  or the message of the exception that process\_single\_guide raised. So is the result of
  the floating-point arithmetic: \<open>float_pct processed total\<close> is the float that
  \<open>round((processed / total) * 100, 1)\<close> gives when \<open>total\<close> is not 0.
\<close>

record saga_env =
  env_site_id :: string
  pause_check :: "int \<Rightarrow> bool"
  run_step :: "int \<Rightarrow> int \<Rightarrow> string + nat"
  float_pct :: "nat \<Rightarrow> nat \<Rightarrow> rat"

record loop_state =
  processed :: nat
  total_chunks :: nat
  errors :: "error_entry list"
  calls :: "host_call list"

datatype saga_result =
    Paused nat int nat
  | Completed nat nat nat "error_entry list"

text \<open>\<open>xs[i]\<close> for a Python list: a negative index counts from the end, an index out
  of range raises.\<close>

definition list_get :: "'a list \<Rightarrow> int \<Rightarrow> exn + 'a" where
  "list_get xs i =
     (let n = int (length xs)
      in if 0 \<le> i \<and> i < n then Inr (xs ! nat i)
         else if - n \<le> i \<and> i < 0 then Inr (xs ! nat (n + i))
         else Inl IndexError)"

text \<open>\<open>round((processed / total_guides) * 100, 1)\<close>: the division raises when
  \<open>total_guides\<close> is 0; otherwise the value is the float the arithmetic gives.\<close>

definition percentage :: "saga_env \<Rightarrow> nat \<Rightarrow> nat \<Rightarrow> exn + rat" where
  "percentage env processed_guides total_guides =
     (if total_guides = 0 then Inl ZeroDivisionError
      else Inr (float_pct env processed_guides total_guides))"

definition title_of :: "guide_summary \<Rightarrow> int \<Rightarrow> string" where
  "title_of guide_summary guide_id =
     (case gs_title guide_summary of None \<Rightarrow> ''Guide '' @ str_int guide_id | Some t \<Rightarrow> t)"

text \<open>The \<open>try\<close> block of the loop body: it returns the state reached, with the
  exception when one is raised.\<close>

definition try_block ::
  "saga_env \<Rightarrow> nat \<Rightarrow> int \<Rightarrow> guide_summary \<Rightarrow> int \<Rightarrow> loop_state \<Rightarrow> (exn \<times> loop_state) + loop_state" where
  "try_block env total_guides i guide_summary guide_id st =
     (let st1 = st\<lparr>calls := calls st @ [StepRun i guide_id]\<rparr>
      in case run_step env i guide_id of
           Inl msg \<Rightarrow> Inl (Exception msg, st1)
         | Inr n \<Rightarrow>
             (let st2 = st1\<lparr>processed := processed st1 + 1, total_chunks := total_chunks st1 + n\<rparr>
              in case percentage env (processed st2) total_guides of
                   Inl e \<Rightarrow> Inl (e, st2)
                 | Inr pct \<Rightarrow>
                     Inr (st2\<lparr>calls := calls st2 @
                            [SendEvent (ProgressEvent (env_site_id env) total_guides (processed st2)
                               (total_chunks st2) (title_of guide_summary guide_id) pct)]\<rparr>)))"

definition except_block :: "saga_env \<Rightarrow> guide_summary \<Rightarrow> int \<Rightarrow> exn \<Rightarrow> loop_state \<Rightarrow> loop_state" where
  "except_block env guide_summary guide_id e st =
     (let st1 = st\<lparr>errors := errors st @
                   [\<lparr> ee_guide_id = guide_id, ee_title = title_of guide_summary guide_id,
                      ee_error = e \<rparr>]\<rparr>
      in st1\<lparr>calls := calls st1 @
            [SendEvent (ErrorEvent (env_site_id env)
               (''Failed to process guide '' @ str_int guide_id @ '': '' @ str_exn e)
               (processed st1) (length (errors st1)))]\<rparr>)"

definition process_guide ::
  "saga_env \<Rightarrow> nat \<Rightarrow> int \<Rightarrow> guide_summary \<Rightarrow> int \<Rightarrow> loop_state \<Rightarrow> loop_state" where
  "process_guide env total_guides i guide_summary guide_id st =
     (case try_block env total_guides i guide_summary guide_id st of
        Inr st' \<Rightarrow> st'
      | Inl (e, st') \<Rightarrow> except_block env guide_summary guide_id e st')"

text \<open>
  The loop \<open>for i in range(resume_offset, len(all_guides))\<close>, over the list of its
  indices. It ends with \<open>Some i\<close> when it returns at a pause seen before index \<open>i\<close>,
  with \<open>None\<close> when it runs to the end.
\<close>

fun ingest_loop ::
  "saga_env \<Rightarrow> guide_summary list \<Rightarrow> int list \<Rightarrow> loop_state \<Rightarrow> exn + (int option \<times> loop_state)" where
  "ingest_loop env all_guides [] st = Inr (None, st)"
| "ingest_loop env all_guides (i # rest) st =
     (case list_get all_guides i of
        Inl e \<Rightarrow> Inl e
      | Inr guide_summary \<Rightarrow>
          (case guideid guide_summary of
             None \<Rightarrow> ingest_loop env all_guides rest st
           | Some guide_id \<Rightarrow>
               if guide_id = 0 then ingest_loop env all_guides rest st
               else if 0 < i \<and> i mod 5 = 0
               then (let st1 = st\<lparr>calls := calls st @ [WaitForEvent i]\<rparr>
                     in if pause_check env i
                        then Inr (Some i,
                               st1\<lparr>calls := calls st1 @
                                 [SendEvent (PausedEvent (env_site_id env) (processed st1) i
                                    (length all_guides))]\<rparr>)
                        else ingest_loop env all_guides rest
                               (process_guide env (length all_guides) i guide_summary guide_id st1))
               else ingest_loop env all_guides rest
                      (process_guide env (length all_guides) i guide_summary guide_id st)))"

text \<open>
  rag\_ingest\_site from the point where the catalog listing \<open>all_guides\<close> has been
  paged in. It returns the summary and the final state of the loop, whose \<open>calls\<close>
  are everything the run asked of the host.
\<close>

definition rag_ingest_site ::
  "saga_env \<Rightarrow> guide_summary list \<Rightarrow> int \<Rightarrow> exn + (saga_result \<times> loop_state)" where
  "rag_ingest_site env all_guides resume_offset =
     (let total_guides = length all_guides;
          st0 = \<lparr> processed = 0, total_chunks = 0, errors = [],
                  calls = [SendEvent (UpdateProgress (env_site_id env) total_guides)] \<rparr>
      in case ingest_loop env all_guides [resume_offset..int total_guides - 1] st0 of
           Inl e \<Rightarrow> Inl e
         | Inr (Some i, st) \<Rightarrow> Inr (Paused (processed st) i total_guides, st)
         | Inr (None, st) \<Rightarrow>
             Inr (Completed (processed st) (length (errors st)) (total_chunks st) (errors st),
                  st\<lparr>calls := calls st @
                    [SendEvent (CompletedEvent (env_site_id env) total_guides (processed st)
                       (length (errors st)) (total_chunks st) (errors st))]\<rparr>))"

text \<open>Reading a run's calls: the ingestion steps run, as (loop index, guide id), and
  the loop indices before which a pause was polled.\<close>

fun step_runs :: "host_call list \<Rightarrow> (int \<times> int) list" where
  "step_runs [] = []"
| "step_runs (StepRun i g # cs) = (i, g) # step_runs cs"
| "step_runs (c # cs) = step_runs cs"

fun polls :: "host_call list \<Rightarrow> int list" where
  "polls [] = []"
| "polls (WaitForEvent i # cs) = i # polls cs"
| "polls (c # cs) = polls cs"


section \<open>Notions used to state the properties\<close>

text \<open>
  For a loop index \<open>i\<close> inside the catalog: whether the guide there carries a usable
  (truthy) id, and that id; whether the loop polls for a pause before \<open>i\<close>; whether
  it sees one. \<open>attempted\<close> selects, from the indices the loop ranges over, those
  whose guide the ingestion step is run for: the guides with an id, up to the first
  index where a pause is seen.
\<close>

definition has_id :: "guide_summary list \<Rightarrow> int \<Rightarrow> bool" where
  "has_id all_guides i = (case guideid (all_guides ! nat i) of None \<Rightarrow> False | Some g \<Rightarrow> g \<noteq> 0)"

definition id_at :: "guide_summary list \<Rightarrow> int \<Rightarrow> int" where
  "id_at all_guides i = (case guideid (all_guides ! nat i) of None \<Rightarrow> 0 | Some g \<Rightarrow> g)"

text \<open>The loop polls before a positive index that is a multiple of 5.\<close>

definition polled :: "int \<Rightarrow> bool" where
  "polled i = (0 < i \<and> i mod 5 = 0)"

definition pause_seen :: "saga_env \<Rightarrow> guide_summary list \<Rightarrow> int \<Rightarrow> bool" where
  "pause_seen env all_guides i = (polled i \<and> has_id all_guides i \<and> pause_check env i)"

definition attempted :: "saga_env \<Rightarrow> guide_summary list \<Rightarrow> int list \<Rightarrow> int list" where
  "attempted env all_guides idxs =
     filter (has_id all_guides) (takeWhile (\<lambda>i. \<not> pause_seen env all_guides i) idxs)"

definition failure_of :: "saga_env \<Rightarrow> guide_summary list \<Rightarrow> int \<Rightarrow> error_entry list" where
  "failure_of env all_guides i =
     (case run_step env i (id_at all_guides i) of
        Inl msg \<Rightarrow> [\<lparr> ee_guide_id = id_at all_guides i,
                      ee_title = title_of (all_guides ! nat i) (id_at all_guides i),
                      ee_error = Exception msg \<rparr>]
      | Inr n \<Rightarrow> [])"

definition succeeded :: "saga_env \<Rightarrow> guide_summary list \<Rightarrow> int \<Rightarrow> bool" where
  "succeeded env all_guides i =
     (case run_step env i (id_at all_guides i) of Inl msg \<Rightarrow> False | Inr n \<Rightarrow> True)"


section \<open>Example inputs\<close>

text \<open>A guide whose title alone makes the header section longer than 1000 characters;
  a guide with no optional part; a guide with one step whose media entries carry a
  fixed-size URL beside (or without) the \<open>original\<close> one.\<close>

definition long_title_doc :: guide_doc where
  "long_title_doc = \<lparr> title = Some (replicate 1001 CHR ''a''), summary = None, difficulty = None, category = None,
     introduction_rendered = None, conclusion_rendered = None, steps = None, parts = None,
     tools = None, url = None \<rparr>"

definition bare_doc :: guide_doc where
  "bare_doc = \<lparr> title = None, summary = None, difficulty = None, category = None,
     introduction_rendered = None, conclusion_rendered = None, steps = None, parts = None,
     tools = None, url = None \<rparr>"

definition plain_services :: "nat services" where
  "plain_services =
     \<lparr> sv_fetch_guide = (\<lambda>guide_id token. Inr bare_doc),
       sv_split_text = (\<lambda>s. [s]),
       sv_embed = (\<lambda>s. Inr (length s)),
       sv_uuid5 = (\<lambda>name. name) \<rparr>"

definition two_url_doc :: guide_doc where
  "two_url_doc =
     \<lparr> title = Some ''Blade change'', summary = None, difficulty = None, category = None,
       introduction_rendered = None, conclusion_rendered = None,
       steps = Some
         [\<lparr> orderby = Some 1, s_title = Some ''Remove the guard'', lines = None,
            s_media = Some (MediaDict
              \<lparr> m_type = Some ''image'',
                m_data = Some
                  [ItemDict [''standard'' \<mapsto> ''https://cdn.example/1.standard'',
                             ''original'' \<mapsto> ''https://signed.example/1.full''],
                   ItemDict [''standard'' \<mapsto> ''https://cdn.example/2.standard'']] \<rparr>) \<rparr>],
       parts = None, tools = None, url = None \<rparr>"

text \<open>
  Catalogs and host behaviours for the site ingestion: a catalog of \<open>n\<close> guides with ids
  101, 102, ...; a catalog in which the guide at index 2 has no id and the one at index 4
  has id 0; a catalog in which the guide at index 5 has no id; hosts that report a pause
  at the poll before index 5, at every poll after index 5, or never, and whose ingestion
  step succeeds with 3 chunks or fails for the guide at index 0. Their percentage is the
  exact quotient.
\<close>

definition exact_pct :: "nat \<Rightarrow> nat \<Rightarrow> rat" where
  "exact_pct processed_guides total_guides = of_nat processed_guides / of_nat total_guides * 100"

definition catalog :: "nat \<Rightarrow> guide_summary list" where
  "catalog n = map (\<lambda>k. \<lparr> guideid = Some (101 + int k), gs_title = None \<rparr>) [0..<n]"

definition pause_at_5 :: saga_env where
  "pause_at_5 =
     \<lparr> env_site_id = ''hansaw'', pause_check = (\<lambda>i. i = 5), run_step = (\<lambda>i guide_id. Inr 3),
       float_pct = exact_pct \<rparr>"

definition pause_after_5 :: saga_env where
  "pause_after_5 =
     \<lparr> env_site_id = ''hansaw'', pause_check = (\<lambda>i. 5 < i), run_step = (\<lambda>i guide_id. Inr 3),
       float_pct = exact_pct \<rparr>"

definition no_pause :: saga_env where
  "no_pause =
     \<lparr> env_site_id = ''hansaw'', pause_check = (\<lambda>i. False), run_step = (\<lambda>i guide_id. Inr 3),
       float_pct = exact_pct \<rparr>"

definition first_fails_pause_at_5 :: saga_env where
  "first_fails_pause_at_5 =
     \<lparr> env_site_id = ''hansaw'', pause_check = (\<lambda>i. i = 5),
       run_step = (\<lambda>i guide_id. if i = 0 then Inl ''fetch failed'' else Inr 3),
       float_pct = exact_pct \<rparr>"

definition first_fails :: saga_env where
  "first_fails =
     \<lparr> env_site_id = ''hansaw'', pause_check = (\<lambda>i. False),
       run_step = (\<lambda>i guide_id. if i = 0 then Inl ''fetch failed'' else Inr 3),
       float_pct = exact_pct \<rparr>"

definition catalog_with_gap :: "guide_summary list" where
  "catalog_with_gap =
     [\<lparr> guideid = Some 101, gs_title = Some ''Saw setup'' \<rparr>,
      \<lparr> guideid = Some 102, gs_title = None \<rparr>,
      \<lparr> guideid = None, gs_title = Some ''Draft'' \<rparr>,
      \<lparr> guideid = Some 104, gs_title = None \<rparr>,
      \<lparr> guideid = Some 0, gs_title = None \<rparr>,
      \<lparr> guideid = Some 106, gs_title = None \<rparr>,
      \<lparr> guideid = Some 107, gs_title = None \<rparr>]"

definition catalog_no_id_at_5 :: "guide_summary list" where
  "catalog_no_id_at_5 =
     [\<lparr> guideid = Some 101, gs_title = None \<rparr>,
      \<lparr> guideid = Some 102, gs_title = None \<rparr>,
      \<lparr> guideid = Some 103, gs_title = None \<rparr>,
      \<lparr> guideid = Some 104, gs_title = None \<rparr>,
      \<lparr> guideid = Some 105, gs_title = None \<rparr>,
      \<lparr> guideid = None, gs_title = Some ''Untitled'' \<rparr>,
      \<lparr> guideid = Some 107, gs_title = None \<rparr>]"


section \<open>Chunks and images stay aligned\<close>

lemma images_copy: "(if images \<noteq> [] then images else []) = (images :: 'a list)"
  by simp

lemma append_parts_eq:
  "append_parts ps images (c, ci) = (c @ ps, ci @ replicate (length ps) images)"
  by (induction ps arbitrary: c ci) (simp_all add: replicate_app_Cons_same)

lemma chunk_loop_zip:
  "length c = length ci \<Longrightarrow> k + length xs \<le> length imgs \<Longrightarrow>
   chunk_loop split_text imgs (enumerate k xs) (c, ci) = (cs, ims) \<Longrightarrow>
   length cs = length ims \<and>
   zip cs ims = zip c ci @ concat (map (\<lambda>(section, images).
       if length section > 1000 then map (\<lambda>part. (part, images)) (split_text section)
       else [(section, images)]) (zip xs (drop k imgs)))"
proof (induction xs arbitrary: k c ci)
  case Nil
  then show ?case by simp
next
  case (Cons x xs)
  have k: "k < length imgs" using Cons.prems(2) by simp
  have d: "drop k imgs = imgs ! k # drop (Suc k) imgs"
    using k by (simp add: Cons_nth_drop_Suc)
  show ?case
  proof (cases "length x > 1000")
    case True
    let ?c = "c @ split_text x" and ?ci = "ci @ replicate (length (split_text x)) (imgs ! k)"
    have step: "chunk_loop split_text imgs (enumerate (Suc k) xs) (?c, ?ci) = (cs, ims)"
      using Cons.prems(3) True k by (simp add: append_parts_eq)
    have len: "length ?c = length ?ci" using Cons.prems(1) by simp
    have z: "zip ?c ?ci = zip c ci @ map (\<lambda>part. (part, imgs ! k)) (split_text x)"
      using Cons.prems(1) by (simp add: zip_replicate2 map_prod_def case_prod_beta comp_def)
    from Cons.IH[OF len _ step] Cons.prems(2) True show ?thesis
      by (simp add: d z)
  next
    case False
    let ?c = "c @ [x]" and ?ci = "ci @ [imgs ! k]"
    have step: "chunk_loop split_text imgs (enumerate (Suc k) xs) (?c, ?ci) = (cs, ims)"
      using Cons.prems(3) False k by (simp add: Let_def images_copy)
    have len: "length ?c = length ?ci" using Cons.prems(1) by simp
    from Cons.IH[OF len _ step] Cons.prems(1,2) False show ?thesis
      by (simp add: d)
  qed
qed

lemma chunk_guide_with_media_zip:
  assumes "chunk_guide_with_media split_text guide_data = (chunks, chunk_images, meta)"
  shows "length chunks = length chunk_images \<and>
    zip chunks chunk_images = concat (map (\<lambda>(section, images).
       if length section > 1000 then map (\<lambda>part. (part, images)) (split_text section)
       else [(section, images)]) (zip (extract_guide_text guide_data) (extract_guide_images guide_data)))"
proof -
  let ?t = "extract_guide_text guide_data" and ?i = "extract_guide_images guide_data"
  let ?n = "min (length ?t) (length ?i)"
  have run: "chunk_loop split_text (take ?n ?i) (enumerate 0 (take ?n ?t)) ([], []) = (chunks, chunk_images)"
    using assms by (simp add: chunk_guide_with_media_def Let_def split: prod.splits)
  have z: "zip (take ?n ?t) (take ?n ?i) = zip ?t ?i"
    by (simp add: take_zip[symmetric])
  from chunk_loop_zip[OF _ _ run] show ?thesis by (simp add: z)
qed

lemma strip_Nil: "strip [] = []" by (simp add: strip_def)

text \<open>
  Counterexample to C8 as stated ("a section of more than 1000 characters gives multiple
  sub-chunks"): the header section of \<open>long_title_doc\<close> is longer than 1000
  characters, and with a splitter that returns its text as one chunk (as a splitter whose
  chunk size is counted in tokens does on such a text) it yields exactly one chunk.
\<close>

theorem long_section_single_chunk_counterexample:
  "1000 < length (header_text long_title_doc) \<and>
   extract_guide_text long_title_doc = [header_text long_title_doc] \<and>
   chunk_guide_with_media (\<lambda>s. [s]) long_title_doc = ([header_text long_title_doc], [[]], meta_of long_title_doc)"
proof -
  have l: "1000 < length (header_text long_title_doc)"
    by (simp add: header_text_def long_title_doc_def get_str_def)
  have t: "extract_guide_text long_title_doc = [header_text long_title_doc]"
    by (simp add: extract_guide_text_def Let_def long_title_doc_def get_str_def get_list_def strip_Nil)
  have i: "extract_guide_images long_title_doc = [[]]"
    by (simp add: extract_guide_images_def Let_def long_title_doc_def get_str_def get_list_def strip_Nil)
  have e: "enumerate 0 [header_text long_title_doc] = [(0, header_text long_title_doc)]" by simp
  show ?thesis using l
    by (simp add: t i chunk_guide_with_media_def Let_def e del: enumerate_simps)
qed

lemma steps_text_prefix: "\<exists>ys. steps_text ss acc = acc @ ys"
proof (induction ss arbitrary: acc)
  case Nil
  then show ?case by simp
next
  case (Cons s ss)
  obtain ys where a: "steps_text ss (acc @ [step_text_of s]) = (acc @ [step_text_of s]) @ ys"
    using Cons.IH by blast
  obtain zs where b: "steps_text ss acc = acc @ zs"
    using Cons.IH by blast
  show ?case by (simp add: Let_def a b)
qed

lemma extract_guide_text_header: "\<exists>rest. extract_guide_text d = header_text d # rest"
proof -
  let ?acc = "if strip (get_str (introduction_rendered d)) \<noteq> []
     then [header_text d] @ [''Introduction:\<newline>'' @ strip (get_str (introduction_rendered d))]
     else [header_text d]"
  obtain ys where a: "steps_text (get_list (steps d)) ?acc = ?acc @ ys"
    using steps_text_prefix by blast
  show ?thesis
    unfolding extract_guide_text_def Let_def a by simp
qed

lemma chunk_sections_eq:
  "chunk_sections split_text xs c =
     c @ concat (map (\<lambda>s. if length s > 1000 then split_text s else [s]) xs)"
  by (induction xs arbitrary: c) simp_all

lemma header_not_blank: "\<not> list_all is_space (header_text d)"
  by (simp add: header_text_def is_space_def)

lemma chunk_sections_nonempty:
  assumes "\<And>s. \<not> list_all is_space s \<Longrightarrow> split_text s \<noteq> []"
  shows "chunk_sections split_text (extract_guide_text d) [] \<noteq> []"
proof -
  obtain rest where r: "extract_guide_text d = header_text d # rest"
    using extract_guide_text_header by blast
  have "split_text (header_text d) \<noteq> []" using assms header_not_blank by blast
  then show ?thesis by (simp add: chunk_sections_eq r)
qed

text \<open>
  C1. For every guide document the fetch returns, and every splitter,
  load\_and\_chunk\_guide\_with\_media returns a chunk list and a per-chunk image list of
  the same length; when the fetch raises, so does the function.
\<close>

theorem chunks_and_images_aligned:
  "case fetch_guide guide_id token of
     Inl e \<Rightarrow> load_and_chunk_guide_with_media fetch_guide split_text guide_id token = Inl e
   | Inr guide_data \<Rightarrow>
       (\<exists>chunks chunk_images meta.
          load_and_chunk_guide_with_media fetch_guide split_text guide_id token
            = Inr (chunks, chunk_images, meta) \<and>
          length chunks = length chunk_images)"
proof (cases "fetch_guide guide_id token")
  case (Inl e)
  then show ?thesis by (simp add: load_and_chunk_guide_with_media_def)
next
  case (Inr guide_data)
  obtain chunks chunk_images meta
    where c: "chunk_guide_with_media split_text guide_data = (chunks, chunk_images, meta)"
    by (cases "chunk_guide_with_media split_text guide_data") auto
  have "length chunks = length chunk_images"
    using chunk_guide_with_media_zip[OF c] by simp
  then show ?thesis using Inr c by (simp add: load_and_chunk_guide_with_media_def)
qed

text \<open>
  C8, amended. When a section is longer than 1000 characters, the chunks emitted for it
  are exactly the parts the splitter returns (however many), each paired with the
  section's own image list; a section of at most 1000 characters is emitted as one chunk,
  unchanged, with its image list. The pairs come in the order of the sections.
\<close>

theorem sub_chunks_carry_section_images:
  assumes "fetch_guide guide_id token = Inr guide_data"
  shows "\<exists>chunks chunk_images meta.
      load_and_chunk_guide_with_media fetch_guide split_text guide_id token
        = Inr (chunks, chunk_images, meta) \<and>
      length chunks = length chunk_images \<and>
      zip chunks chunk_images =
        concat (map (\<lambda>(section, images).
                  if length section > 1000
                  then map (\<lambda>part. (part, images)) (split_text section)
                  else [(section, images)])
               (zip (extract_guide_text guide_data) (extract_guide_images guide_data)))"
proof -
  obtain chunks chunk_images meta
    where c: "chunk_guide_with_media split_text guide_data = (chunks, chunk_images, meta)"
    by (cases "chunk_guide_with_media split_text guide_data") auto
  show ?thesis
    using chunk_guide_with_media_zip[OF c] assms c
    by (simp add: load_and_chunk_guide_with_media_def)
qed

theorem sub_chunks_carry_section_images_witness:
  "(\<lambda>guide_id token. Inr long_title_doc) (7::int) ''tok'' = (Inr long_title_doc :: exn + guide_doc) \<and>
   (\<exists>chunks chunk_images meta.
      load_and_chunk_guide_with_media (\<lambda>guide_id token. Inr long_title_doc) (\<lambda>s. [take 1000 s, drop 800 s]) 7 ''tok''
        = Inr (chunks, chunk_images, meta) \<and>
      length chunks = length chunk_images \<and>
      zip chunks chunk_images =
        [(take 1000 (header_text long_title_doc), []), (drop 800 (header_text long_title_doc), [])])"
proof -
  have l: "1000 < length (header_text long_title_doc)"
    by (simp add: header_text_def long_title_doc_def get_str_def)
  have t: "extract_guide_text long_title_doc = [header_text long_title_doc]"
    by (simp add: extract_guide_text_def Let_def long_title_doc_def get_str_def get_list_def strip_Nil)
  have i: "extract_guide_images long_title_doc = [[]]"
    by (simp add: extract_guide_images_def Let_def long_title_doc_def get_str_def get_list_def strip_Nil)
  show ?thesis
    using sub_chunks_carry_section_images[of "\<lambda>guide_id token. Inr long_title_doc" 7 "''tok''" long_title_doc "\<lambda>s. [take 1000 s, drop 800 s]"] l
    by (simp add: t i)
qed

lemma process_single_guide_not_zero:
  assumes "\<And>s. \<not> list_all is_space s \<Longrightarrow> sv_split_text sv s \<noteq> []"
  shows "fst (process_single_guide sv guide_id token site_id index) \<noteq> Inr 0"
proof (cases "sv_fetch_guide sv guide_id token")
  case (Inl e)
  then show ?thesis
    by (simp add: process_single_guide_def process_single_guide_try_def load_and_chunk_guide_def)
next
  case (Inr d)
  have ne: "chunk_sections (sv_split_text sv) (extract_guide_text d) [] \<noteq> []"
    using assms by (rule chunk_sections_nonempty)
  show ?thesis using Inr ne
    by (simp add: process_single_guide_def process_single_guide_try_def load_and_chunk_guide_def
        Let_def split: sum.splits)
qed

text \<open>
  C9. extract\_guide\_text always puts the synthesized header first, so the section list
  is never empty. Provided the splitter returns at least one chunk for a text that is not
  all white space, load\_and\_chunk\_guide returns a non-empty chunk list for every guide
  fetched, and process\_single\_guide never returns a count of 0: its early return for an
  empty chunk list is not taken.
\<close>

theorem header_chunk_always_present:
  assumes "\<And>s. \<not> list_all is_space s \<Longrightarrow> sv_split_text sv s \<noteq> []"
  shows "extract_guide_text guide_data \<noteq> [] \<and>
         hd (extract_guide_text guide_data) = header_text guide_data \<and>
         (case sv_fetch_guide sv guide_id token of
            Inl e \<Rightarrow> load_and_chunk_guide (sv_fetch_guide sv) (sv_split_text sv) guide_id token = Inl e
          | Inr d \<Rightarrow>
              (\<exists>chunks. load_and_chunk_guide (sv_fetch_guide sv) (sv_split_text sv) guide_id token
                          = Inr chunks \<and> chunks \<noteq> [])) \<and>
         fst (process_single_guide sv guide_id token site_id index) \<noteq> Inr 0"
proof -
  obtain rest where r: "extract_guide_text guide_data = header_text guide_data # rest"
    using extract_guide_text_header by blast
  have a: "extract_guide_text guide_data \<noteq> [] \<and> hd (extract_guide_text guide_data) = header_text guide_data"
    by (simp add: r)
  have b: "case sv_fetch_guide sv guide_id token of
            Inl e \<Rightarrow> load_and_chunk_guide (sv_fetch_guide sv) (sv_split_text sv) guide_id token = Inl e
          | Inr d \<Rightarrow>
              (\<exists>chunks. load_and_chunk_guide (sv_fetch_guide sv) (sv_split_text sv) guide_id token
                          = Inr chunks \<and> chunks \<noteq> [])"
    using chunk_sections_nonempty[of "sv_split_text sv", OF assms]
    by (simp add: load_and_chunk_guide_def split: sum.splits)
  show ?thesis using a b process_single_guide_not_zero[of sv, OF assms] by blast
qed

theorem header_chunk_always_present_witness:
  "extract_guide_text bare_doc \<noteq> [] \<and>
   load_and_chunk_guide (sv_fetch_guide plain_services) (sv_split_text plain_services) 7 ''tok''
     = Inr [header_text bare_doc] \<and>
   fst (process_single_guide plain_services 7 ''tok'' ''hansaw'' Map.empty) \<noteq> Inr 0"
proof -
  have h: "\<And>s. \<not> list_all is_space s \<Longrightarrow> sv_split_text plain_services s \<noteq> []"
    by (simp add: plain_services_def)
  have t: "extract_guide_text bare_doc = [header_text bare_doc]"
    by (simp add: extract_guide_text_def Let_def bare_doc_def get_str_def get_list_def strip_Nil)
  have l: "\<not> 1000 < length (header_text bare_doc)"
    by (simp add: header_text_def bare_doc_def get_str_def)
  have c: "load_and_chunk_guide (sv_fetch_guide plain_services) (sv_split_text plain_services) 7 ''tok''
     = Inr [header_text bare_doc]"
    using l by (simp add: load_and_chunk_guide_def plain_services_def t)
  show ?thesis
    using header_chunk_always_present[of plain_services bare_doc 7 "''tok''" "''hansaw''" Map.empty, OF h] c
    by simp
qed


section \<open>Image URLs of a step\<close>

text \<open>
  C7. The claim (and the comment in the code) say that a fixed-size URL is preferred over
  the signed \<open>original\<close> URL. The code reads the \<open>original\<close> key only: of an entry
  with both URLs it keeps the original one, and an entry with a fixed-size URL alone
  gives no image.
\<close>

theorem images_take_original_url_only:
  "extract_guide_images two_url_doc = [[], [''https://signed.example/1.full'']]"
  by (simp add: extract_guide_images_def two_url_doc_def Let_def get_str_def get_list_def
      strip_Nil step_images_of_def)


section \<open>The search result\<close>

lemma search_loop_inv:
  assumes "length (contexts acc) = length (images_per_context acc)"
      and "length (contexts acc) = length (guide_info acc)"
      and "distinct (sources acc)" and "distinct (guide_ids acc)"
  shows "length (contexts (search_loop rs acc)) = length (images_per_context (search_loop rs acc)) \<and>
         length (contexts (search_loop rs acc)) = length (guide_info (search_loop rs acc)) \<and>
         distinct (sources (search_loop rs acc)) \<and> distinct (guide_ids (search_loop rs acc))"
  using assms
proof (induction rs arbitrary: acc)
  case Nil
  then show ?case by simp
next
  case (Cons r rs)
  show ?case
  proof (cases "get_str (pl_text (case sp_payload r of None \<Rightarrow> empty_payload | Some q \<Rightarrow> q)) = []")
    case True
    then show ?thesis using Cons.IH[OF Cons.prems] by (simp add: Let_def)
  next
    case False
    let ?p = "case sp_payload r of None \<Rightarrow> empty_payload | Some q \<Rightarrow> q"
    let ?acc = "\<lparr> contexts = contexts acc @ [get_str (pl_text ?p)],
                  sources = List.insert (get_str (pl_source ?p)) (sources acc),
                  guide_ids = add_guide_id (pl_guide_id ?p) (guide_ids acc),
                  images_per_context = images_per_context acc @ [images_of ?p],
                  guide_info = guide_info acc @
                    [\<lparr> gi_guide_id = pl_guide_id ?p, gi_title = pl_guide_title ?p,
                       gi_url = pl_guide_url ?p, gi_source = get_str (pl_source ?p) \<rparr>] \<rparr>"
    have d: "distinct (add_guide_id (pl_guide_id ?p) (guide_ids acc))"
      using Cons.prems(4) by (simp add: add_guide_id_def split: option.splits)
    have step: "search_loop (r # rs) acc = search_loop rs ?acc"
      using False by (simp add: Let_def)
    show ?thesis unfolding step
      using Cons.prems d by (intro Cons.IH) simp_all
  qed
qed

text \<open>
  C4. For every batch of scored points the index returns, the result of search has as
  many per-context image lists and guide-info records as contexts, and its sources and
  guide ids have no duplicates.
\<close>

theorem search_lengths_and_distinct:
  "length (contexts (search client_search query_vector top_k guide_id))
     = length (images_per_context (search client_search query_vector top_k guide_id)) \<and>
   length (images_per_context (search client_search query_vector top_k guide_id))
     = length (guide_info (search client_search query_vector top_k guide_id)) \<and>
   distinct (sources (search client_search query_vector top_k guide_id)) \<and>
   distinct (guide_ids (search client_search query_vector top_k guide_id))"
  using search_loop_inv[of "\<lparr> contexts = [], sources = [], guide_ids = [], images_per_context = [], guide_info = [] \<rparr>"
      "client_search query_vector guide_id top_k"]
  by (simp add: search_def)



section \<open>Deterministic point ids\<close>

lemma digit_val_digit_char: "d < 10 \<Longrightarrow> digit_val (digit_char d) = d"
  by (simp add: digit_val_def digit_char_def)

lemma nat_of_digits_snoc: "nat_of_digits (s @ [c]) = 10 * nat_of_digits s + digit_val c"
  by (simp add: nat_of_digits_def)

lemma nat_of_digits_str_nat: "nat_of_digits (str_nat n) = n"
proof (induction n rule: str_nat.induct)
  case (1 n)
  show ?case
  proof (cases "n < 10")
    case True
    then show ?thesis
      by (simp add: str_nat.simps[of n] nat_of_digits_def digit_val_digit_char)
  next
    case False
    then have "nat_of_digits (str_nat (n div 10)) = n div 10" using 1 by simp
    then show ?thesis using False
      by (simp add: str_nat.simps[of n] nat_of_digits_snoc digit_val_digit_char)
  qed
qed

lemma str_nat_inj: "str_nat i = str_nat j \<Longrightarrow> i = j"
  by (metis nat_of_digits_str_nat)

lemma point_name_inj: "point_name source_id i = point_name source_id j \<Longrightarrow> i = j"
  by (simp add: point_name_def str_nat_inj)

lemma point_ids_distinct:
  assumes "inj_on uuid5 (point_name source_id ` {..<n})"
  shows "distinct (point_ids uuid5 source_id n)"
proof -
  have "inj_on (point_name source_id) {..<n}"
    by (rule inj_onI) (rule point_name_inj)
  then have "inj_on (\<lambda>i. uuid5 (point_name source_id i)) {..<n}"
    using assms by (simp add: inj_on_def)
  then show ?thesis
    by (simp add: point_ids_def distinct_map atLeast_upt[symmetric] lessThan_atLeast0)
qed

lemma client_upsert_eq:
  "client_upsert points index = index ++ map_of (rev (map (\<lambda>(i, v, p). (i, (v, p))) points))"
proof (induction points arbitrary: index)
  case Nil
  then show ?case by (simp add: client_upsert_def)
next
  case (Cons x xs)
  obtain i v p where x: "x = (i, v, p)" by (cases x) auto
  have "client_upsert (x # xs) index = client_upsert xs (index(i \<mapsto> (v, p)))"
    by (simp add: client_upsert_def x)
  also have "\<dots> = index(i \<mapsto> (v, p)) ++ map_of (rev (map (\<lambda>(i, v, p). (i, (v, p))) xs))"
    by (rule Cons.IH)
  also have "\<dots> = index ++ map_of (rev (map (\<lambda>(i, v, p). (i, (v, p))) (x # xs)))"
    by (simp add: x map_add_assoc[symmetric])
  finally show ?case .
qed


lemma embed_loop_length:
  "embed_loop embed_one texts acc = Inr vs \<Longrightarrow> length vs = length acc + length texts"
  by (induction texts arbitrary: acc) (auto split: sum.splits)

lemma embed_texts_length: "embed_texts embed_one texts = Inr vs \<Longrightarrow> length vs = length texts"
  using embed_loop_length[of embed_one texts "[]" vs] by (simp add: embed_texts_def)

lemma make_points_zip:
  assumes "length vectors = length ids" and "length payloads = length ids"
  shows "make_points ids vectors payloads = Inr (zip ids (zip vectors payloads))"
proof -
  have "map (\<lambda>i. (ids ! i, vectors ! i, payloads ! i)) [0..<length ids] = zip ids (zip vectors payloads)"
    using assms by (intro nth_equalityI) simp_all
  then show ?thesis using assms by (simp add: make_points_def)
qed

lemma upsert_eq:
  assumes "length vectors = length ids" and "length payloads = length ids"
  shows "upsert ids vectors payloads index = Inr (index ++ map_of (rev (zip ids (zip vectors payloads))))"
proof -
  have "map (\<lambda>(i, v, p). (i, (v, p))) (zip ids (zip vectors payloads)) = zip ids (zip vectors payloads)"
    by (induction "zip ids (zip vectors payloads)") auto
  then show ?thesis
    by (simp add: upsert_def make_points_zip[OF assms] client_upsert_eq)
qed

lemma dom_points:
  assumes "length vectors = length ids" and "length payloads = length ids"
  shows "dom (map_of (rev (zip ids (zip vectors payloads)))) = set ids"
proof -
  have "map fst (zip ids (zip vectors payloads)) = ids"
    using assms by (simp add: map_fst_zip)
  then have "fst ` set (zip ids (zip vectors payloads)) = set ids"
    by (metis set_map)
  then show ?thesis by (simp add: dom_map_of_conv_image_fst)
qed

lemma map_add_twice: "(m ++ n) ++ n = m ++ n"
  by (simp add: map_add_def fun_eq_iff split: option.splits)

lemma length_point_ids: "length (point_ids uuid5 source_id n) = n"
  by (simp add: point_ids_def)

lemma length_point_payloads: "length (point_payloads source_id chunks guide_id) = length chunks"
  by (simp add: point_payloads_def)

lemma upsert_twice:
  assumes "embed_texts embed_one chunks = Inr vecs"
      and "inj_on uuid5 (point_name source_id ` {..<length chunks})"
  shows "\<exists>index1.
      upsert (point_ids uuid5 source_id (length chunks)) vecs
         (point_payloads source_id chunks guide_id) Map.empty = Inr index1 \<and>
      dom index1 = set (point_ids uuid5 source_id (length chunks)) \<and>
      count index1 = length chunks \<and>
      upsert (point_ids uuid5 source_id (length chunks)) vecs
         (point_payloads source_id chunks guide_id) index1 = Inr index1"
proof -
  let ?ids = "point_ids uuid5 source_id (length chunks)"
  let ?pl = "point_payloads source_id chunks guide_id"
  let ?m = "map_of (rev (zip ?ids (zip vecs ?pl)))"
  have lv: "length vecs = length ?ids"
    using embed_texts_length[OF assms(1)] by (simp add: length_point_ids)
  have lp: "length ?pl = length ?ids"
    by (simp add: length_point_ids length_point_payloads)
  have d: "dom ?m = set ?ids" by (rule dom_points[OF lv lp])
  have c: "card (set ?ids) = length chunks"
    using point_ids_distinct[OF assms(2)] by (simp add: distinct_card length_point_ids)
  have u1: "upsert ?ids vecs ?pl Map.empty = Inr ?m"
    by (simp add: upsert_eq[OF lv lp])
  have u2: "upsert ?ids vecs ?pl ?m = Inr ?m"
    by (simp add: upsert_eq[OF lv lp] map_add_def fun_eq_iff split: option.splits)
  show ?thesis using u1 u2 d c by (simp add: count_def)
qed

text \<open>
  C2. Point ids are a function of the source id and the chunk index. Provided the name
  hash does not collide on the names \<open>source_id:0\<close>, \<open>source_id:1\<close>, ... of the chunks,
  ingesting a guide into an empty index leaves exactly \<open>len(chunks)\<close> points, stored
  under those ids, and ingesting it again with the same source id leaves the index
  unchanged. This holds for process\_single\_guide and for the \_upsert step of
  rag\_ingest\_guide.
\<close>

theorem reingest_same_points:
  assumes "load_and_chunk_guide (sv_fetch_guide sv) (sv_split_text sv) guide_id token = Inr chunks"
      and "embed_texts (sv_embed sv) chunks = Inr vecs"
      and "inj_on (sv_uuid5 sv) (point_name (site_id @ ''_guide_'' @ str_int guide_id) ` {..<length chunks})"
      and "inj_on (sv_uuid5 sv) (point_name source_id ` {..<length chunks})"
  shows "(\<exists>index1.
            process_single_guide sv guide_id token site_id Map.empty = (Inr (length chunks), index1) \<and>
            dom index1 = set (point_ids (sv_uuid5 sv) (site_id @ ''_guide_'' @ str_int guide_id) (length chunks)) \<and>
            count index1 = length chunks \<and>
            process_single_guide sv guide_id token site_id index1 = (Inr (length chunks), index1)) \<and>
         (\<exists>index1.
            rag_ingest_guide_upsert sv \<lparr> rc_chunks = chunks, rc_source_id = source_id \<rparr> guide_id Map.empty
              = (Inr (length chunks), index1) \<and>
            dom index1 = set (point_ids (sv_uuid5 sv) source_id (length chunks)) \<and>
            count index1 = length chunks \<and>
            rag_ingest_guide_upsert sv \<lparr> rc_chunks = chunks, rc_source_id = source_id \<rparr> guide_id index1
              = (Inr (length chunks), index1))"
proof (intro conjI)
  show "\<exists>index1.
            process_single_guide sv guide_id token site_id Map.empty = (Inr (length chunks), index1) \<and>
            dom index1 = set (point_ids (sv_uuid5 sv) (site_id @ ''_guide_'' @ str_int guide_id) (length chunks)) \<and>
            count index1 = length chunks \<and>
            process_single_guide sv guide_id token site_id index1 = (Inr (length chunks), index1)"
  proof (cases "chunks = []")
    case True
    then show ?thesis using assms(1)
      by (simp add: process_single_guide_def process_single_guide_try_def point_ids_def count_def)
  next
    case False
    obtain index1 where i: "upsert (point_ids (sv_uuid5 sv) (site_id @ ''_guide_'' @ str_int guide_id) (length chunks)) vecs
         (point_payloads (site_id @ ''_guide_'' @ str_int guide_id) chunks guide_id) Map.empty = Inr index1"
      "dom index1 = set (point_ids (sv_uuid5 sv) (site_id @ ''_guide_'' @ str_int guide_id) (length chunks))"
      "count index1 = length chunks"
      "upsert (point_ids (sv_uuid5 sv) (site_id @ ''_guide_'' @ str_int guide_id) (length chunks)) vecs
         (point_payloads (site_id @ ''_guide_'' @ str_int guide_id) chunks guide_id) index1 = Inr index1"
      using upsert_twice[OF assms(2) assms(3)] by blast
    show ?thesis using False assms(1,2) i
      by (simp add: process_single_guide_def process_single_guide_try_def Let_def)
  qed
next
  obtain index1 where i: "upsert (point_ids (sv_uuid5 sv) source_id (length chunks)) vecs
         (point_payloads source_id chunks guide_id) Map.empty = Inr index1"
      "dom index1 = set (point_ids (sv_uuid5 sv) source_id (length chunks))"
      "count index1 = length chunks"
      "upsert (point_ids (sv_uuid5 sv) source_id (length chunks)) vecs
         (point_payloads source_id chunks guide_id) index1 = Inr index1"
      using upsert_twice[OF assms(2) assms(4)] by blast
  show "\<exists>index1.
            rag_ingest_guide_upsert sv \<lparr> rc_chunks = chunks, rc_source_id = source_id \<rparr> guide_id Map.empty
              = (Inr (length chunks), index1) \<and>
            dom index1 = set (point_ids (sv_uuid5 sv) source_id (length chunks)) \<and>
            count index1 = length chunks \<and>
            rag_ingest_guide_upsert sv \<lparr> rc_chunks = chunks, rc_source_id = source_id \<rparr> guide_id index1
              = (Inr (length chunks), index1)"
    using assms(2) i by (simp add: rag_ingest_guide_upsert_def Let_def)
qed

theorem reingest_same_points_witness:
  "load_and_chunk_guide (sv_fetch_guide plain_services) (sv_split_text plain_services) 7 ''tok''
     = Inr [header_text bare_doc] \<and>
   embed_texts (sv_embed plain_services) [header_text bare_doc] = Inr [length (header_text bare_doc)] \<and>
   inj_on (sv_uuid5 plain_services)
     (point_name (''hansaw'' @ ''_guide_'' @ str_int 7) ` {..<length [header_text bare_doc]}) \<and>
   inj_on (sv_uuid5 plain_services) (point_name ''guide_7'' ` {..<length [header_text bare_doc]}) \<and>
   (\<exists>index1.
      process_single_guide plain_services 7 ''tok'' ''hansaw'' Map.empty = (Inr 1, index1) \<and>
      count index1 = 1 \<and>
      process_single_guide plain_services 7 ''tok'' ''hansaw'' index1 = (Inr 1, index1)) \<and>
   (\<exists>index1.
      rag_ingest_guide_upsert plain_services
        \<lparr> rc_chunks = [header_text bare_doc], rc_source_id = ''guide_7'' \<rparr> 7 Map.empty = (Inr 1, index1) \<and>
      count index1 = 1 \<and>
      rag_ingest_guide_upsert plain_services
        \<lparr> rc_chunks = [header_text bare_doc], rc_source_id = ''guide_7'' \<rparr> 7 index1 = (Inr 1, index1))"
proof -
  have t: "extract_guide_text bare_doc = [header_text bare_doc]"
    by (simp add: extract_guide_text_def Let_def bare_doc_def get_str_def get_list_def strip_Nil)
  have l: "\<not> 1000 < length (header_text bare_doc)"
    by (simp add: header_text_def bare_doc_def get_str_def)
  have h1: "load_and_chunk_guide (sv_fetch_guide plain_services) (sv_split_text plain_services) 7 ''tok''
     = Inr [header_text bare_doc]"
    using l by (simp add: load_and_chunk_guide_def plain_services_def t)
  have h2: "embed_texts (sv_embed plain_services) [header_text bare_doc] = Inr [length (header_text bare_doc)]"
    by (simp add: embed_texts_def plain_services_def)
  have h3: "inj_on (sv_uuid5 plain_services)
     (point_name (''hansaw'' @ ''_guide_'' @ str_int 7) ` {..<length [header_text bare_doc]})"
    by (simp add: plain_services_def)
  have h4: "inj_on (sv_uuid5 plain_services) (point_name ''guide_7'' ` {..<length [header_text bare_doc]})"
    by (simp add: plain_services_def)
  show ?thesis
    using reingest_same_points[OF h1 h2 h3 h4] h1 h2 h3 h4
    by simp blast
qed


section \<open>The ingestion loop\<close>

lemma step_runs_append: "step_runs (xs @ ys) = step_runs xs @ step_runs ys"
  by (induction xs rule: step_runs.induct) simp_all

lemma polls_append: "polls (xs @ ys) = polls xs @ polls ys"
  by (induction xs rule: polls.induct) simp_all

lemma process_guide_fields:
  assumes "0 < tg"
  shows "step_runs (calls (process_guide env tg i g gid st)) = step_runs (calls st) @ [(i, gid)]"
    and "polls (calls (process_guide env tg i g gid st)) = polls (calls st)"
    and "errors (process_guide env tg i g gid st) = errors st @
           (case run_step env i gid of
              Inl msg \<Rightarrow> [\<lparr> ee_guide_id = gid, ee_title = title_of g gid, ee_error = Exception msg \<rparr>]
            | Inr n \<Rightarrow> [])"
    and "processed (process_guide env tg i g gid st) = processed st +
           (case run_step env i gid of Inl msg \<Rightarrow> 0 | Inr n \<Rightarrow> 1)"
  using assms
  by (simp_all add: process_guide_def try_block_def except_block_def percentage_def Let_def
      step_runs_append polls_append split: sum.splits)

lemma list_get_valid: "0 \<le> i \<Longrightarrow> i < int (length xs) \<Longrightarrow> list_get xs i = Inr (xs ! nat i)"
  by (simp add: list_get_def)

lemma ingest_loop_valid:
  assumes "list_all (\<lambda>i. 0 \<le> i \<and> i < int (length gs)) idxs"
  shows "\<exists>st'. ingest_loop env gs idxs st = Inr (find (pause_seen env gs) idxs, st') \<and>
     step_runs (calls st') = step_runs (calls st) @ map (\<lambda>i. (i, id_at gs i)) (attempted env gs idxs) \<and>
     polls (calls st') = polls (calls st) @ filter polled (attempted env gs idxs) @
        (case find (pause_seen env gs) idxs of None \<Rightarrow> [] | Some p \<Rightarrow> [p]) \<and>
     errors st' = errors st @ concat (map (failure_of env gs) (attempted env gs idxs)) \<and>
     processed st' = processed st + length (filter (succeeded env gs) (attempted env gs idxs))"
  using assms
proof (induction idxs arbitrary: st)
  case Nil
  then show ?case by (simp add: attempted_def)
next
  case (Cons i rest)
  have v: "0 \<le> i" "i < int (length gs)" and vr: "list_all (\<lambda>i. 0 \<le> i \<and> i < int (length gs)) rest"
    using Cons.prems by simp_all
  have g: "list_get gs i = Inr (gs ! nat i)" using v by (rule list_get_valid)
  have tot: "0 < length gs" using v by auto
  show ?case
  proof (cases "has_id gs i")
    case False
    have np: "\<not> pause_seen env gs i" using False by (simp add: pause_seen_def)
    have step: "ingest_loop env gs (i # rest) st = ingest_loop env gs rest st"
      using False by (simp add: g has_id_def split: option.splits)
    have att: "attempted env gs (i # rest) = attempted env gs rest"
      using False np by (simp add: attempted_def)
    show ?thesis unfolding step att using Cons.IH[OF vr, of st] np by simp
  next
    case True
    then obtain gid where gid: "guideid (gs ! nat i) = Some gid" "gid \<noteq> 0"
      by (auto simp: has_id_def split: option.splits)
    have ida: "id_at gs i = gid" by (simp add: id_at_def gid)
    show ?thesis
    proof (cases "pause_seen env gs i")
      case True
      then have p: "polled i" "pause_check env i" by (simp_all add: pause_seen_def)
      have att: "attempted env gs (i # rest) = []" using True by (simp add: attempted_def)
      show ?thesis using True p
        by (simp add: g gid att polled_def[symmetric] Let_def step_runs_append polls_append)
    next
      case np: False
      let ?st1 = "if polled i then st\<lparr>calls := calls st @ [WaitForEvent i]\<rparr> else st"
      let ?st2 = "process_guide env (length gs) i (gs ! nat i) gid ?st1"
      have npc: "polled i \<Longrightarrow> \<not> pause_check env i"
        using np True by (simp add: pause_seen_def)
      have step: "ingest_loop env gs (i # rest) st = ingest_loop env gs rest ?st2"
        using npc by (simp add: g gid polled_def[symmetric] Let_def)
      have att: "attempted env gs (i # rest) = i # attempted env gs rest"
        using True np by (simp add: attempted_def)
      have f1: "step_runs (calls ?st2) = step_runs (calls st) @ [(i, gid)]"
        by (simp add: process_guide_fields(1)[OF tot] step_runs_append)
      have f2: "polls (calls ?st2) = polls (calls st) @ (if polled i then [i] else [])"
        by (simp add: process_guide_fields(2)[OF tot] polls_append)
      have f3: "errors ?st2 = errors st @ failure_of env gs i"
        by (simp add: process_guide_fields(3)[OF tot] failure_of_def ida split: sum.splits)
      have f4: "processed ?st2 = processed st + (if succeeded env gs i then 1 else 0)"
        by (simp add: process_guide_fields(4)[OF tot] succeeded_def ida split: sum.splits)
      obtain st' where st': "ingest_loop env gs rest ?st2 = Inr (find (pause_seen env gs) rest, st')"
        "step_runs (calls st') = step_runs (calls ?st2) @ map (\<lambda>i. (i, id_at gs i)) (attempted env gs rest)"
        "polls (calls st') = polls (calls ?st2) @ filter polled (attempted env gs rest) @
           (case find (pause_seen env gs) rest of None \<Rightarrow> [] | Some p \<Rightarrow> [p])"
        "errors st' = errors ?st2 @ concat (map (failure_of env gs) (attempted env gs rest))"
        "processed st' = processed ?st2 + length (filter (succeeded env gs) (attempted env gs rest))"
        using Cons.IH[OF vr, of ?st2] by blast
      show ?thesis
        unfolding step att st'(1)
        using st'(2-5) np
        by (simp add: f1 f2 f3 f4 ida)
    qed
  qed
qed

lemma valid_upto: "0 \<le> N \<Longrightarrow> list_all (\<lambda>i. 0 \<le> i \<and> i < int (length gs)) [N..int (length gs) - 1]"
  by (auto simp: list_all_iff)

lemma rag_ingest_site_run:
  assumes "0 \<le> N"
  shows "\<exists>st. rag_ingest_site env gs N =
           Inr (case find (pause_seen env gs) [N..int (length gs) - 1] of
                  None \<Rightarrow> Completed (processed st) (length (errors st)) (total_chunks st) (errors st)
                | Some i \<Rightarrow> Paused (processed st) i (length gs), st) \<and>
     step_runs (calls st) = map (\<lambda>i. (i, id_at gs i)) (attempted env gs [N..int (length gs) - 1]) \<and>
     polls (calls st) = filter polled (attempted env gs [N..int (length gs) - 1]) @
        (case find (pause_seen env gs) [N..int (length gs) - 1] of None \<Rightarrow> [] | Some p \<Rightarrow> [p]) \<and>
     errors st = concat (map (failure_of env gs) (attempted env gs [N..int (length gs) - 1])) \<and>
     processed st = length (filter (succeeded env gs) (attempted env gs [N..int (length gs) - 1]))"
proof -
  let ?st0 = "\<lparr> processed = 0, total_chunks = 0, errors = [],
                 calls = [SendEvent (UpdateProgress (env_site_id env) (length gs))] \<rparr>"
  let ?idxs = "[N..int (length gs) - 1]"
  obtain st' where st': "ingest_loop env gs ?idxs ?st0 = Inr (find (pause_seen env gs) ?idxs, st')"
     "step_runs (calls st') = step_runs (calls ?st0) @ map (\<lambda>i. (i, id_at gs i)) (attempted env gs ?idxs)"
     "polls (calls st') = polls (calls ?st0) @ filter polled (attempted env gs ?idxs) @
        (case find (pause_seen env gs) ?idxs of None \<Rightarrow> [] | Some p \<Rightarrow> [p])"
     "errors st' = errors ?st0 @ concat (map (failure_of env gs) (attempted env gs ?idxs))"
     "processed st' = processed ?st0 + length (filter (succeeded env gs) (attempted env gs ?idxs))"
    using ingest_loop_valid[OF valid_upto[OF assms], where env = env and st = ?st0] by blast
  show ?thesis
  proof (cases "find (pause_seen env gs) ?idxs")
    case None
    let ?st = "st'\<lparr>calls := calls st' @
                    [SendEvent (CompletedEvent (env_site_id env) (length gs) (processed st')
                       (length (errors st')) (total_chunks st') (errors st'))]\<rparr>"
    have "rag_ingest_site env gs N =
            Inr (Completed (processed ?st) (length (errors ?st)) (total_chunks ?st) (errors ?st), ?st)"
      using st'(1) None by (simp add: rag_ingest_site_def Let_def)
    then show ?thesis using st'(2-5) None
      by (intro exI[of _ ?st]) (simp add: step_runs_append polls_append)
  next
    case (Some i)
    have "rag_ingest_site env gs N = Inr (Paused (processed st') i (length gs), st')"
      using st'(1) Some by (simp add: rag_ingest_site_def Let_def)
    then show ?thesis using st'(2-5) Some
      by (intro exI[of _ st']) simp
  qed
qed

lemma find_upto:
  "find P [N..M] = Some i \<Longrightarrow>
     N \<le> i \<and> i \<le> M \<and> P i \<and> takeWhile (\<lambda>j. \<not> P j) [N..M] = [N..i - 1]"
proof (induction N M rule: upto.induct)
  case (1 N M)
  show ?case
  proof (cases "N \<le> M")
    case False
    then show ?thesis using 1(2) by simp
  next
    case True
    then have u: "[N..M] = N # [N + 1..M]" by (simp add: upto_rec1)
    show ?thesis
    proof (cases "P N")
      case True
      have iN: "i = N" using 1(2) True by (simp add: u)
      have "takeWhile (\<lambda>j. \<not> P j) [N..M] = []" using True by (simp add: u)
      then show ?thesis using iN True \<open>N \<le> M\<close> by simp
    next
      case False
      then have f: "find P [N + 1..M] = Some i" using 1(2) by (simp add: u)
      have ih: "N + 1 \<le> i \<and> i \<le> M \<and> P i \<and> takeWhile (\<lambda>j. \<not> P j) [N + 1..M] = [N + 1..i - 1]"
        using 1(1)[OF True f] .
      have "[N..i - 1] = N # [N + 1..i - 1]" using ih by (simp add: upto_rec1)
      then show ?thesis using ih False by (simp add: u)
    qed
  qed
qed

lemma find_None_takeWhile: "find P xs = None \<Longrightarrow> takeWhile (\<lambda>j. \<not> P j) xs = xs"
  by (induction xs) (auto split: if_splits)

lemma polls_ok:
  "list_all polled (filter polled xs @ (case find (pause_seen env gs) ys of None \<Rightarrow> [] | Some p \<Rightarrow> [p]))"
proof (cases "find (pause_seen env gs) ys")
  case None
  then show ?thesis by (simp add: list_all_iff)
next
  case (Some p)
  then have "pause_seen env gs p" by (auto simp: find_Some_iff)
  then show ?thesis using Some by (simp add: list_all_iff pause_seen_def)
qed

lemma attempted_member:
  assumes "N \<le> i" and "i < int (length gs)" and "has_id gs i"
      and "find (pause_seen env gs) [N..i] = None"
  shows "i \<in> set (attempted env gs [N..int (length gs) - 1])"
proof -
  have s: "[N..int (length gs) - 1] = [N..i] @ [i + 1..int (length gs) - 1]"
    using upto_split2[of N i "int (length gs) - 1"] assms(1,2) by simp
  have a: "\<forall>j\<in>set [N..i]. \<not> pause_seen env gs j"
    using assms(4) by (simp add: find_None_iff)
  have "takeWhile (\<lambda>j. \<not> pause_seen env gs j) [N..int (length gs) - 1]
          = [N..i] @ takeWhile (\<lambda>j. \<not> pause_seen env gs j) [i + 1..int (length gs) - 1]"
    unfolding s using a by (intro takeWhile_append2) simp
  then show ?thesis using assms(1,3) by (simp add: attempted_def)
qed


subsection \<open>Resuming\<close>

text \<open>
  C3, amended. A run with resume offset \<open>N \<ge> 0\<close> never runs the ingestion step for an
  index below \<open>N\<close>. It runs it, in catalog order, for exactly the guides that carry a
  usable id (a guide with no id, or id 0, is skipped) at the indices from \<open>N\<close> up to the
  first index where a pause is seen; when no pause is seen, that is every index of
  \<open>[N, total)\<close>, and the run completes.
\<close>

theorem resume_attempts_from_offset:
  assumes "0 \<le> N" and "N \<le> int (length all_guides)"
  shows "\<exists>res st. rag_ingest_site env all_guides N = Inr (res, st) \<and>
     step_runs (calls st) =
       map (\<lambda>i. (i, id_at all_guides i))
         (filter (has_id all_guides)
            (takeWhile (\<lambda>i. \<not> pause_seen env all_guides i) [N..int (length all_guides) - 1])) \<and>
     list_all (\<lambda>(i, guide_id). N \<le> i \<and> i < int (length all_guides)) (step_runs (calls st)) \<and>
     (case find (pause_seen env all_guides) [N..int (length all_guides) - 1] of
        None \<Rightarrow> res = Completed (processed st) (length (errors st)) (total_chunks st) (errors st) \<and>
                step_runs (calls st) =
                  map (\<lambda>i. (i, id_at all_guides i))
                    (filter (has_id all_guides) [N..int (length all_guides) - 1])
      | Some p \<Rightarrow> res = Paused (processed st) p (length all_guides))"
proof -
  let ?idxs = "[N..int (length all_guides) - 1]"
  obtain st where st: "rag_ingest_site env all_guides N =
           Inr (case find (pause_seen env all_guides) ?idxs of
                  None \<Rightarrow> Completed (processed st) (length (errors st)) (total_chunks st) (errors st)
                | Some i \<Rightarrow> Paused (processed st) i (length all_guides), st)"
     "step_runs (calls st) = map (\<lambda>i. (i, id_at all_guides i)) (attempted env all_guides ?idxs)"
    using rag_ingest_site_run[OF assms(1), of env all_guides] by blast
  have r: "list_all (\<lambda>(i, guide_id). N \<le> i \<and> i < int (length all_guides)) (step_runs (calls st))"
    unfolding st(2) attempted_def list_all_iff by (auto dest!: set_takeWhileD)
  have n: "find (pause_seen env all_guides) ?idxs = None \<Longrightarrow>
      attempted env all_guides ?idxs = filter (has_id all_guides) ?idxs"
    by (simp add: attempted_def find_None_takeWhile)
  show ?thesis
    using st r n
    by (intro exI[of _ "case find (pause_seen env all_guides) ?idxs of
                  None \<Rightarrow> Completed (processed st) (length (errors st)) (total_chunks st) (errors st)
                | Some i \<Rightarrow> Paused (processed st) i (length all_guides)"] exI[of _ st])
       (simp add: attempted_def split: option.splits)
qed

theorem resume_attempts_from_offset_witness:
  "(0::int) \<le> 2 \<and> (2::int) \<le> int (length catalog_with_gap) \<and>
   map_sum id (\<lambda>(res, st). (res, step_runs (calls st))) (rag_ingest_site pause_at_5 catalog_with_gap 2)
     = Inr (Paused 1 5 7, [(3, 104)])"
  using resume_attempts_from_offset[of 2 catalog_with_gap pause_at_5]
  by (simp add: rag_ingest_site_def catalog_with_gap_def pause_at_5_def list_get_def process_guide_def
      try_block_def percentage_def Let_def upto_rec1 step_runs_append)

text \<open>
  Counterexample to C3 as stated. On a catalog of 6 guides, all with ids, a run from
  offset 0 that sees a pause at the poll before index 5 attempts the guides at indices
  0 to 4 only, not all of \<open>[0, 6)\<close>. On a catalog of 7 guides of which those at
  indices 2 and 4 have no usable id, a run from offset 0 that sees no pause completes
  without attempting these two.
\<close>

theorem resume_stops_at_pause_counterexample:
  "map_sum id (\<lambda>(res, st). (res, step_runs (calls st))) (rag_ingest_site pause_at_5 (catalog 6) 0)
     = Inr (Paused 5 5 6, [(0, 101), (1, 102), (2, 103), (3, 104), (4, 105)]) \<and>
   map_sum id (\<lambda>(res, st). (res, step_runs (calls st))) (rag_ingest_site no_pause catalog_with_gap 0)
     = Inr (Completed 5 0 15 [], [(0, 101), (1, 102), (3, 104), (5, 106), (6, 107)])"
proof -
  have a: "map_sum id (\<lambda>(res, st). (res, step_runs (calls st))) (rag_ingest_site pause_at_5 (catalog 6) 0)
     = Inr (Paused 5 5 6, [(0, 101), (1, 102), (2, 103), (3, 104), (4, 105)])"
    by (simp add: rag_ingest_site_def catalog_def pause_at_5_def list_get_def process_guide_def
        try_block_def percentage_def Let_def upto_rec1 step_runs_append)
  have b: "map_sum id (\<lambda>(res, st). (res, step_runs (calls st))) (rag_ingest_site no_pause catalog_with_gap 0)
     = Inr (Completed 5 0 15 [], [(0, 101), (1, 102), (3, 104), (5, 106), (6, 107)])"
    by (simp add: rag_ingest_site_def catalog_with_gap_def no_pause_def list_get_def process_guide_def
        try_block_def percentage_def Let_def upto_rec1 step_runs_append)
  show ?thesis using a b by (rule conjI)
qed


subsection \<open>A failing guide\<close>

text \<open>
  C5, amended. If the ingestion step of the guide at index \<open>i\<close> is run (the index is
  in the run's range, the guide has a usable id, no pause was seen up to \<open>i\<close>) and
  raises, the saga records the guide's id, its title and the error in its error list and
  goes on: the steps run are the same as if it had succeeded, every later guide with an
  id up to the first pause seen. When no pause is seen the run completes, and its summary
  counts the failure in \<open>failed_guides\<close>; a run that ends paused returns the paused
  summary, which carries no failure count.
\<close>

theorem failure_recorded_and_run_continues:
  assumes "0 \<le> N" and "N \<le> i" and "i < int (length all_guides)" and "has_id all_guides i"
      and "find (pause_seen env all_guides) [N..i] = None"
      and "run_step env i (id_at all_guides i) = Inl msg"
  shows "\<exists>res st. rag_ingest_site env all_guides N = Inr (res, st) \<and>
      \<lparr> ee_guide_id = id_at all_guides i,
         ee_title = title_of (all_guides ! nat i) (id_at all_guides i),
         ee_error = Exception msg \<rparr> \<in> set (errors st) \<and>
      step_runs (calls st) =
        map (\<lambda>j. (j, id_at all_guides j))
          (filter (has_id all_guides)
             (takeWhile (\<lambda>j. \<not> pause_seen env all_guides j) [N..int (length all_guides) - 1])) \<and>
      (case find (pause_seen env all_guides) [N..int (length all_guides) - 1] of
         None \<Rightarrow> res = Completed (processed st) (length (errors st)) (total_chunks st) (errors st) \<and>
                 0 < length (errors st) \<and>
                 step_runs (calls st) =
                   map (\<lambda>j. (j, id_at all_guides j))
                     (filter (has_id all_guides) [N..int (length all_guides) - 1])
       | Some p \<Rightarrow> res = Paused (processed st) p (length all_guides))"
proof -
  let ?idxs = "[N..int (length all_guides) - 1]"
  let ?e = "\<lparr> ee_guide_id = id_at all_guides i,
         ee_title = title_of (all_guides ! nat i) (id_at all_guides i),
         ee_error = Exception msg \<rparr>"
  obtain st where st: "rag_ingest_site env all_guides N =
           Inr (case find (pause_seen env all_guides) ?idxs of
                  None \<Rightarrow> Completed (processed st) (length (errors st)) (total_chunks st) (errors st)
                | Some i \<Rightarrow> Paused (processed st) i (length all_guides), st)"
     "step_runs (calls st) = map (\<lambda>i. (i, id_at all_guides i)) (attempted env all_guides ?idxs)"
     "errors st = concat (map (failure_of env all_guides) (attempted env all_guides ?idxs))"
    using rag_ingest_site_run[OF assms(1), of env all_guides] by blast
  have m: "i \<in> set (attempted env all_guides ?idxs)"
    using assms(2-5) by (rule attempted_member)
  have f: "failure_of env all_guides i = [?e]"
    by (simp add: failure_of_def assms(6))
  have e: "?e \<in> set (errors st)"
    unfolding st(3) using m f by (auto intro!: bexI[of _ i])
  then have pos: "0 < length (errors st)" by (cases "errors st") auto
  have n: "find (pause_seen env all_guides) ?idxs = None \<Longrightarrow>
      attempted env all_guides ?idxs = filter (has_id all_guides) ?idxs"
    by (simp add: attempted_def find_None_takeWhile)
  show ?thesis
    using st(1,2) e pos n
    by (intro exI[of _ "case find (pause_seen env all_guides) ?idxs of
                  None \<Rightarrow> Completed (processed st) (length (errors st)) (total_chunks st) (errors st)
                | Some i \<Rightarrow> Paused (processed st) i (length all_guides)"] exI[of _ st])
       (simp add: attempted_def split: option.splits)
qed

theorem failure_recorded_and_run_continues_witness:
  "(0::int) \<le> 0 \<and> (0::int) < int (length (catalog 6)) \<and> has_id (catalog 6) 0 \<and>
   find (pause_seen first_fails (catalog 6)) [0..0] = None \<and>
   run_step first_fails 0 (id_at (catalog 6) 0) = Inl ''fetch failed'' \<and>
   map_sum id (\<lambda>(res, st). (res, step_runs (calls st))) (rag_ingest_site first_fails (catalog 6) 0)
     = Inr (Completed 5 1 15
              [\<lparr> ee_guide_id = 101, ee_title = ''Guide 101'', ee_error = Exception ''fetch failed'' \<rparr>],
            [(0, 101), (1, 102), (2, 103), (3, 104), (4, 105), (5, 106)])"
proof -
  have n: "(0::int) < int (length (catalog 6))" by (simp add: catalog_def)
  have h: "has_id (catalog 6) 0" by (simp add: has_id_def catalog_def)
  have f: "find (pause_seen first_fails (catalog 6)) [0..0] = None"
    by (simp add: upto_rec1 pause_seen_def polled_def)
  have r: "run_step first_fails 0 (id_at (catalog 6) 0) = Inl ''fetch failed''"
    by (simp add: first_fails_def)
  have t: "str_int 101 = ''101''"
    by code_simp
  have e: "map_sum id (\<lambda>(res, st). (res, step_runs (calls st))) (rag_ingest_site first_fails (catalog 6) 0)
     = Inr (Completed 5 1 15
              [\<lparr> ee_guide_id = 101, ee_title = ''Guide 101'', ee_error = Exception ''fetch failed'' \<rparr>],
            [(0, 101), (1, 102), (2, 103), (3, 104), (4, 105), (5, 106)])"
    by (simp add: rag_ingest_site_def catalog_def first_fails_def list_get_def process_guide_def
      try_block_def except_block_def percentage_def title_of_def t Let_def upto_rec1 step_runs_append)
  show ?thesis
    using failure_recorded_and_run_continues[of 0 0 "catalog 6" first_fails "''fetch failed''", OF _ _ n h f r] n h f r e
    by simp
qed

text \<open>
  Counterexample to C5 as stated. On a catalog of 6 guides, the step of the guide at
  index 0 fails and a pause is seen at the poll before index 5: the failure is recorded,
  but the guide at index 5 is never attempted, and the summary returned is the paused
  one, \<open>Paused processed_guides resume_offset total_guides\<close>, without \<open>failed_guides\<close>.
  On the catalog of 7 guides of which those at indices 2 and 4 have no usable id, with
  no pause, the run completes and counts the failure, without attempting these two.
\<close>

theorem failure_then_pause_counterexample:
  "map_sum id (\<lambda>(res, st). (res, step_runs (calls st), map ee_guide_id (errors st)))
     (rag_ingest_site first_fails_pause_at_5 (catalog 6) 0)
     = Inr (Paused 4 5 6, [(0, 101), (1, 102), (2, 103), (3, 104), (4, 105)], [101]) \<and>
   map_sum id (\<lambda>(res, st). (res, step_runs (calls st), map ee_guide_id (errors st)))
     (rag_ingest_site first_fails catalog_with_gap 0)
     = Inr (Completed 4 1 12
              [\<lparr> ee_guide_id = 101, ee_title = ''Saw setup'', ee_error = Exception ''fetch failed'' \<rparr>],
            [(0, 101), (1, 102), (3, 104), (5, 106), (6, 107)], [101])"
proof -
  have a: "map_sum id (\<lambda>(res, st). (res, step_runs (calls st), map ee_guide_id (errors st)))
     (rag_ingest_site first_fails_pause_at_5 (catalog 6) 0)
     = Inr (Paused 4 5 6, [(0, 101), (1, 102), (2, 103), (3, 104), (4, 105)], [101])"
    by (simp add: rag_ingest_site_def catalog_def first_fails_pause_at_5_def list_get_def
        process_guide_def try_block_def except_block_def percentage_def Let_def upto_rec1
        step_runs_append)
  have b: "map_sum id (\<lambda>(res, st). (res, step_runs (calls st), map ee_guide_id (errors st)))
     (rag_ingest_site first_fails catalog_with_gap 0)
     = Inr (Completed 4 1 12
              [\<lparr> ee_guide_id = 101, ee_title = ''Saw setup'', ee_error = Exception ''fetch failed'' \<rparr>],
            [(0, 101), (1, 102), (3, 104), (5, 106), (6, 107)], [101])"
    by (simp add: rag_ingest_site_def catalog_with_gap_def first_fails_def list_get_def
        process_guide_def try_block_def except_block_def percentage_def title_of_def Let_def
        upto_rec1 step_runs_append)
  show ?thesis using a b by (rule conjI)
qed


subsection \<open>Pausing\<close>

text \<open>
  C6, amended. In a run with resume offset \<open>N \<ge> 0\<close>, the pause is polled before exactly
  the loop indices that are positive multiples of 5 and whose guide has a usable id: a
  guide with no id is skipped before the poll, so no poll happens at its index. When a
  poll sees a pause, at index \<open>i\<close>, the run returns the paused summary with resume offset
  \<open>i\<close>, having run the ingestion step only for guides at indices below \<open>i\<close>; when none
  does, the run completes after running the step for every guide with an id in
  \<open>[N, total)\<close>. The scenario (12 guides with ids, pause seen at the poll before index 5,
  then a run from offset 5 that sees no pause) is the witness below.
\<close>

theorem pause_polled_at_multiples_of_five:
  assumes "0 \<le> N"
  shows "\<exists>res st. rag_ingest_site env all_guides N = Inr (res, st) \<and>
     list_all (\<lambda>i. 0 < i \<and> i mod 5 = 0) (polls (calls st)) \<and>
     (case find (pause_seen env all_guides) [N..int (length all_guides) - 1] of
        None \<Rightarrow> res = Completed (processed st) (length (errors st)) (total_chunks st) (errors st) \<and>
                polls (calls st) = filter polled (filter (has_id all_guides) [N..int (length all_guides) - 1]) \<and>
                step_runs (calls st) =
                  map (\<lambda>j. (j, id_at all_guides j))
                    (filter (has_id all_guides) [N..int (length all_guides) - 1])
      | Some i \<Rightarrow> res = Paused (processed st) i (length all_guides) \<and>
                  pause_check env i \<and> 0 < i \<and> i mod 5 = 0 \<and> N \<le> i \<and> i < int (length all_guides) \<and>
                  polls (calls st) = filter polled (filter (has_id all_guides) [N..i - 1]) @ [i] \<and>
                  step_runs (calls st) =
                    map (\<lambda>j. (j, id_at all_guides j)) (filter (has_id all_guides) [N..i - 1]))"
proof -
  let ?idxs = "[N..int (length all_guides) - 1]"
  obtain st where st: "rag_ingest_site env all_guides N =
           Inr (case find (pause_seen env all_guides) ?idxs of
                  None \<Rightarrow> Completed (processed st) (length (errors st)) (total_chunks st) (errors st)
                | Some i \<Rightarrow> Paused (processed st) i (length all_guides), st)"
     "step_runs (calls st) = map (\<lambda>i. (i, id_at all_guides i)) (attempted env all_guides ?idxs)"
     "polls (calls st) = filter polled (attempted env all_guides ?idxs) @
        (case find (pause_seen env all_guides) ?idxs of None \<Rightarrow> [] | Some p \<Rightarrow> [p])"
    using rag_ingest_site_run[OF assms(1), of env all_guides] by blast
  have p: "list_all (\<lambda>i. 0 < i \<and> i mod 5 = 0) (polls (calls st))"
    unfolding st(3) using polls_ok[of "attempted env all_guides ?idxs" env all_guides ?idxs]
    by (simp add: polled_def[abs_def])
  show ?thesis
  proof (cases "find (pause_seen env all_guides) ?idxs")
    case None
    then show ?thesis using st(1,2,3) p
      by (intro exI[of _ "Completed (processed st) (length (errors st)) (total_chunks st) (errors st)"]
          exI[of _ st]) (simp add: attempted_def find_None_takeWhile)
  next
    case (Some i)
    have f: "N \<le> i \<and> i \<le> int (length all_guides) - 1 \<and> pause_seen env all_guides i \<and>
        takeWhile (\<lambda>j. \<not> pause_seen env all_guides j) ?idxs = [N..i - 1]"
      using Some by (rule find_upto)
    then show ?thesis using st(1,2,3) p Some
      by (intro exI[of _ "Paused (processed st) i (length all_guides)"] exI[of _ st])
         (simp add: attempted_def pause_seen_def polled_def)
  qed
qed

theorem pause_polled_at_multiples_of_five_witness:
  "(0::int) \<le> 0 \<and> (0::int) \<le> 5 \<and>
   map_sum id (\<lambda>(res, st). (res, step_runs (calls st), polls (calls st)))
     (rag_ingest_site pause_at_5 (catalog 12) 0)
     = Inr (Paused 5 5 12, [(0, 101), (1, 102), (2, 103), (3, 104), (4, 105)], [5]) \<and>
   map_sum id (\<lambda>(res, st). (res, step_runs (calls st), polls (calls st)))
     (rag_ingest_site no_pause (catalog 12) 5)
     = Inr (Completed 7 0 21 [],
            [(5, 106), (6, 107), (7, 108), (8, 109), (9, 110), (10, 111), (11, 112)], [5, 10])"
  using pause_polled_at_multiples_of_five[of 0 pause_at_5 "catalog 12"] pause_polled_at_multiples_of_five[of 5 no_pause "catalog 12"]
  by (simp add: rag_ingest_site_def catalog_def pause_at_5_def no_pause_def list_get_def process_guide_def
      try_block_def percentage_def Let_def upto_rec1 step_runs_append polls_append)


text \<open>
  Counterexample to C6 as stated. On a catalog of 7 guides of which the one at index 5
  has no id, with a host that would report a pause at the poll before index 5, that poll
  never happens: the run completes, all 6 guides with an id processed. And on 12 guides
  with ids, a pause that is pending only after the poll before index 5 (it arrives while
  the guide at index 5 is processed) is seen at the poll before index 10: the run
  processes the guides at indices 0 to 9 and returns resume offset 10, not 5.
\<close>

theorem pause_missed_at_skipped_guide_counterexample:
  "map_sum id (\<lambda>(res, st). (res, step_runs (calls st), polls (calls st)))
     (rag_ingest_site pause_at_5 catalog_no_id_at_5 0)
     = Inr (Completed 6 0 18 [],
            [(0, 101), (1, 102), (2, 103), (3, 104), (4, 105), (6, 107)], []) \<and>
   map_sum id (\<lambda>(res, st). (res, map fst (step_runs (calls st)), polls (calls st)))
     (rag_ingest_site pause_after_5 (catalog 12) 0)
     = Inr (Paused 10 10 12, [0, 1, 2, 3, 4, 5, 6, 7, 8, 9], [5, 10])"
proof -
  have a: "map_sum id (\<lambda>(res, st). (res, step_runs (calls st), polls (calls st)))
     (rag_ingest_site pause_at_5 catalog_no_id_at_5 0)
     = Inr (Completed 6 0 18 [],
            [(0, 101), (1, 102), (2, 103), (3, 104), (4, 105), (6, 107)], [])"
    by (simp add: rag_ingest_site_def catalog_no_id_at_5_def pause_at_5_def list_get_def
        process_guide_def try_block_def percentage_def Let_def upto_rec1 step_runs_append
        polls_append)
  have b: "map_sum id (\<lambda>(res, st). (res, map fst (step_runs (calls st)), polls (calls st)))
     (rag_ingest_site pause_after_5 (catalog 12) 0)
     = Inr (Paused 10 10 12, [0, 1, 2, 3, 4, 5, 6, 7, 8, 9], [5, 10])"
    by (simp add: rag_ingest_site_def catalog_def pause_after_5_def list_get_def
        process_guide_def try_block_def percentage_def Let_def upto_rec1 step_runs_append
        polls_append)
  show ?thesis using a b by (rule conjI)
qed


subsection \<open>The progress percentage\<close>

lemma list_get_Inr_nonempty: "list_get xs i = Inr x \<Longrightarrow> 0 < length xs"
  by (auto simp: list_get_def Let_def split: if_splits)

lemma list_get_Inl: "list_get xs i = Inl e \<Longrightarrow> e = IndexError"
  by (auto simp: list_get_def Let_def split: if_splits)

lemma process_guide_no_zero_division:
  assumes "0 < tg" and "list_all (\<lambda>e. ee_error e \<noteq> ZeroDivisionError) (errors st)"
  shows "list_all (\<lambda>e. ee_error e \<noteq> ZeroDivisionError) (errors (process_guide env tg i g gid st))"
  using assms(2) by (simp add: process_guide_fields(3)[OF assms(1)] split: sum.splits)

lemma ingest_loop_no_zero_division:
  "list_all (\<lambda>e. ee_error e \<noteq> ZeroDivisionError) (errors st) \<Longrightarrow>
   ingest_loop env gs idxs st = Inr (r, st') \<Longrightarrow>
   list_all (\<lambda>e. ee_error e \<noteq> ZeroDivisionError) (errors st')"
proof (induction idxs arbitrary: st)
  case Nil
  then show ?case by simp
next
  case (Cons i rest)
  obtain g where g: "list_get gs i = Inr g"
    using Cons.prems(2) by (cases "list_get gs i") simp_all
  have tg: "0 < length gs" using g by (rule list_get_Inr_nonempty)
  show ?case
  proof (cases "guideid g")
    case None
    then show ?thesis using Cons.prems Cons.IH[of st] by (simp add: g)
  next
    case (Some gid)
    show ?thesis
    proof (cases "gid = 0")
      case True
      then show ?thesis using Cons.prems Cons.IH[of st] by (simp add: g Some)
    next
      case False
      let ?st1 = "st\<lparr>calls := calls st @ [WaitForEvent i]\<rparr>"
      have ok1: "list_all (\<lambda>e. ee_error e \<noteq> ZeroDivisionError) (errors ?st1)"
        using Cons.prems(1) by simp
      show ?thesis
      proof (cases "0 < i \<and> i mod 5 = 0")
        case p: True
        show ?thesis
        proof (cases "pause_check env i")
          case True
          then show ?thesis using Cons.prems p False by (auto simp: g Some Let_def)
        next
          case np: False
          have "ingest_loop env gs rest (process_guide env (length gs) i g gid ?st1) = Inr (r, st')"
            using Cons.prems(2) p np False by (simp add: g Some Let_def)
          then show ?thesis
            using Cons.IH process_guide_no_zero_division[OF tg ok1] by blast
        qed
      next
        case np: False
        have "ingest_loop env gs rest (process_guide env (length gs) i g gid st) = Inr (r, st')"
          using Cons.prems(2) np False by (simp add: g Some)
        then show ?thesis
          using Cons.IH process_guide_no_zero_division[OF tg Cons.prems(1)] by blast
      qed
    qed
  qed
qed

lemma ingest_loop_Inl: "ingest_loop env gs idxs st = Inl e \<Longrightarrow> e = IndexError"
proof (induction idxs arbitrary: st)
  case Nil
  then show ?case by simp
next
  case (Cons i rest)
  show ?case
  proof (cases "list_get gs i")
    case (Inl e')
    then show ?thesis using Cons.prems list_get_Inl[OF Inl] by simp
  next
    case (Inr g)
    then show ?thesis using Cons.prems Cons.IH
      by (auto simp: Let_def split: option.splits if_splits)
  qed
qed

text \<open>
  C10. The percentage is computed after \<open>all_guides[i]\<close> has been read, which needs a
  non-empty catalog, so its division never raises: in every run, whatever the offset, no
  recorded error is a ZeroDivisionError (the only exception the function itself can raise
  is the IndexError of an offset below \<open>-total\<close>).
\<close>

theorem percentage_never_divides_by_zero:
  "(case rag_ingest_site env all_guides resume_offset of
      Inl e \<Rightarrow> e = IndexError
    | Inr (res, st) \<Rightarrow> list_all (\<lambda>entry. ee_error entry \<noteq> ZeroDivisionError) (errors st)) \<and>
   (case list_get all_guides i of
      Inl e \<Rightarrow> True
    | Inr guide_summary \<Rightarrow> percentage env processed_guides (length all_guides) \<noteq> Inl ZeroDivisionError)"
proof -
  let ?st0 = "\<lparr> processed = 0, total_chunks = 0, errors = [],
                 calls = [SendEvent (UpdateProgress (env_site_id env) (length all_guides))] \<rparr>"
  let ?run = "ingest_loop env all_guides [resume_offset..int (length all_guides) - 1] ?st0"
  have a: "case rag_ingest_site env all_guides resume_offset of
      Inl e \<Rightarrow> e = IndexError
    | Inr (res, st) \<Rightarrow> list_all (\<lambda>entry. ee_error entry \<noteq> ZeroDivisionError) (errors st)"
  proof (cases ?run)
    case (Inl e)
    then show ?thesis using ingest_loop_Inl[OF Inl] by (simp add: rag_ingest_site_def Let_def)
  next
    case (Inr p)
    obtain r st where p: "p = (r, st)" by (cases p) auto
    have "list_all (\<lambda>entry. ee_error entry \<noteq> ZeroDivisionError) (errors st)"
      using ingest_loop_no_zero_division[of ?st0 env all_guides _ r st] Inr p by simp
    then show ?thesis using Inr p
      by (simp add: rag_ingest_site_def Let_def split: option.splits)
  qed
  have b: "case list_get all_guides i of
      Inl e \<Rightarrow> True
    | Inr guide_summary \<Rightarrow> percentage env processed_guides (length all_guides) \<noteq> Inl ZeroDivisionError"
    using list_get_Inr_nonempty[of all_guides i]
    by (auto simp: percentage_def split: sum.splits)
  show ?thesis using a b by blast
qed

end
